theory Spec2Isabelle
  imports Main
begin

section \<open>Plan data model (src/planning/types.ts)\<close>

text \<open>
  The TypeScript interfaces \<open>Task\<close>, \<open>Plan\<close> and \<open>PlanConfig\<close> as records. Field
  names are the source's, except where two interfaces share a name or the name is a HOL
  constant: \<open>Task.id\<close> is \<open>task_id\<close>, \<open>Plan.id\<close> is \<open>plan_id\<close> and \<open>Plan.status\<close> is
  \<open>plan_status\<close>. The counters \<open>attempts\<close> and \<open>maxAttempts\<close> are natural numbers.
\<close>

datatype TaskStatus = pending | in_progress | completed | failed | skipped

datatype PlanStatus = draft | approved | plan_in_progress | plan_completed | plan_failed

record Task =
  task_id :: string
  title :: string
  description :: string
  status :: TaskStatus
  dependencies :: "string list"
  verifyCommand :: "string option"
  attempts :: nat
  maxAttempts :: nat
  error :: "string option"

record VerifyCommands =
  build :: "string option"
  test :: "string option"
  lint :: "string option"

record Plan =
  plan_id :: string
  goal :: string
  createdAt :: string
  plan_status :: PlanStatus
  summary :: string
  tasks :: "Task list"
  currentTaskIndex :: nat
  verifyCommands :: VerifyCommands
  workingDirectory :: string

record PlanConfig =
  maxTaskAttempts :: nat
  runBuildAfterEachTask :: bool
  runTestAfterEachTask :: bool
  stopOnFirstFailure :: bool

definition DEFAULT_PLAN_CONFIG :: PlanConfig where
  "DEFAULT_PLAN_CONFIG =
     \<lparr>maxTaskAttempts = 3, runBuildAfterEachTask = True,
      runTestAfterEachTask = False, stopOnFirstFailure = False\<rparr>"

section \<open>Plan manager (src/planning/plan-manager.ts)\<close>

text \<open>
  The private fields of the class \<open>PlanManager\<close>. Every method takes the manager and
  returns the manager it leaves behind, next to its return value.
\<close>

record PlanManager =
  plan :: "Plan option"
  config :: PlanConfig
  planDir :: string

definition isApproved :: "PlanManager \<Rightarrow> bool" where
  "isApproved m =
     (case plan m of
        None \<Rightarrow> False
      | Some p \<Rightarrow> plan_status p = approved \<or> plan_status p = plan_in_progress)"

definition approvePlan :: "PlanManager \<Rightarrow> bool \<times> PlanManager" where
  "approvePlan m =
     (case plan m of
        None \<Rightarrow> (False, m)
      | Some p \<Rightarrow>
          if plan_status p \<noteq> draft then (False, m)
          else (True, m\<lparr>plan := Some (p\<lparr>plan_status := approved\<rparr>)\<rparr>))"

definition startExecution :: "PlanManager \<Rightarrow> bool \<times> PlanManager" where
  "startExecution m =
     (case plan m of
        None \<Rightarrow> (False, m)
      | Some p \<Rightarrow>
          if plan_status p \<noteq> approved then (False, m)
          else (True, m\<lparr>plan := Some (p\<lparr>plan_status := plan_in_progress\<rparr>)\<rparr>))"

text \<open>
  \<open>depsComplete\<close> is the callback of \<open>task.dependencies.every\<close> inside \<open>getNextTask\<close>:
  \<open>tasks.find\<close> yields the first task carrying the identifier, and a dependency that
  names no task gives \<open>undefined\<close>, which is not \<open>'completed'\<close>.
\<close>

definition depsComplete :: "Plan \<Rightarrow> Task \<Rightarrow> bool" where
  "depsComplete p task =
     list_all
       (\<lambda>depId. case find (\<lambda>t. task_id t = depId) (tasks p) of
                  None \<Rightarrow> False
                | Some dep \<Rightarrow> status dep = completed)
       (dependencies task)"

text \<open>
  The \<open>for\<close> loop of \<open>getNextTask\<close>, started at index \<open>i\<close>; it yields the index at which
  the loop returns, or \<open>None\<close> when it runs off the end of the array.
\<close>

function getNextTask_loop :: "Plan \<Rightarrow> nat \<Rightarrow> nat option" where
  "getNextTask_loop p i =
     (if i < length (tasks p) then
        (if status (tasks p ! i) = pending \<and> depsComplete p (tasks p ! i) then Some i
         else getNextTask_loop p (Suc i))
      else None)"
  by pat_completeness auto
termination
  by (relation "measure (\<lambda>(p, i). length (tasks p) - i)") auto

declare getNextTask_loop.simps [simp del]

text \<open>
  \<open>getNextTask\<close> returns a reference to an element of \<open>plan.tasks\<close>; the model returns the
  task found (its value at the time of the call) and records its position in
  \<open>currentTaskIndex\<close>, as the source does.
\<close>

definition getNextTask :: "PlanManager \<Rightarrow> Task option \<times> PlanManager" where
  "getNextTask m =
     (case plan m of
        None \<Rightarrow> (None, m)
      | Some p \<Rightarrow>
          (case getNextTask_loop p (currentTaskIndex p) of
             None \<Rightarrow> (None, m)
           | Some i \<Rightarrow> (Some (tasks p ! i), m\<lparr>plan := Some (p\<lparr>currentTaskIndex := i\<rparr>)\<rparr>)))"

text \<open>
  \<open>tasks.find(t => t.id === taskId)\<close> followed by assignments to the fields of the task
  found: the first element that satisfies the predicate is replaced, nothing changes
  when there is none.
\<close>

fun update_found :: "('a \<Rightarrow> bool) \<Rightarrow> ('a \<Rightarrow> 'a) \<Rightarrow> 'a list \<Rightarrow> 'a list" where
  "update_found P f [] = []"
| "update_found P f (x # xs) = (if P x then f x # xs else x # update_found P f xs)"

definition markTaskInProgress :: "string \<Rightarrow> PlanManager \<Rightarrow> PlanManager" where
  "markTaskInProgress taskId m =
     (case plan m of
        None \<Rightarrow> m
      | Some p \<Rightarrow>
          m\<lparr>plan := Some (p\<lparr>tasks :=
              update_found (\<lambda>t. task_id t = taskId)
                (\<lambda>t. t\<lparr>status := in_progress, attempts := attempts t + 1\<rparr>) (tasks p)\<rparr>)\<rparr>)"

definition checkPlanCompletion :: "PlanManager \<Rightarrow> PlanManager" where
  "checkPlanCompletion m =
     (case plan m of
        None \<Rightarrow> m
      | Some p \<Rightarrow>
          let allCompleted = list_all (\<lambda>t. status t = completed) (tasks p);
              anyFailed = list_ex (\<lambda>t. status t = failed) (tasks p)
          in if allCompleted then m\<lparr>plan := Some (p\<lparr>plan_status := plan_completed\<rparr>)\<rparr>
             else if anyFailed \<and> stopOnFirstFailure (config m)
               then m\<lparr>plan := Some (p\<lparr>plan_status := plan_failed\<rparr>)\<rparr>
             else m)"

definition markTaskCompleted :: "string \<Rightarrow> PlanManager \<Rightarrow> PlanManager" where
  "markTaskCompleted taskId m =
     checkPlanCompletion
       (case plan m of
          None \<Rightarrow> m
        | Some p \<Rightarrow>
            m\<lparr>plan := Some (p\<lparr>tasks :=
                update_found (\<lambda>t. task_id t = taskId)
                  (\<lambda>t. t\<lparr>status := completed, error := None\<rparr>) (tasks p)\<rparr>)\<rparr>)"

definition markTaskFailed :: "string \<Rightarrow> string \<Rightarrow> PlanManager \<Rightarrow> PlanManager" where
  "markTaskFailed taskId err m =
     (case plan m of
        None \<Rightarrow> m
      | Some p \<Rightarrow>
          (case find (\<lambda>t. task_id t = taskId) (tasks p) of
             None \<Rightarrow> m
           | Some task \<Rightarrow>
               let ts = update_found (\<lambda>t. task_id t = taskId)
                          (\<lambda>t. if attempts t \<ge> maxAttempts t
                                then t\<lparr>error := Some err, status := failed\<rparr>
                                else t\<lparr>error := Some err, status := pending\<rparr>) (tasks p)
               in if attempts task \<ge> maxAttempts task \<and> stopOnFirstFailure (config m)
                  then m\<lparr>plan := Some (p\<lparr>tasks := ts, plan_status := plan_failed\<rparr>)\<rparr>
                  else m\<lparr>plan := Some (p\<lparr>tasks := ts\<rparr>)\<rparr>))"

definition setVerifyCommands :: "VerifyCommands \<Rightarrow> PlanManager \<Rightarrow> PlanManager" where
  "setVerifyCommands commands m =
     (case plan m of
        None \<Rightarrow> m
      | Some p \<Rightarrow> m\<lparr>plan := Some (p\<lparr>verifyCommands := commands\<rparr>)\<rparr>)"

text \<open>
  The expression \<open>this.plan?.tasks.find(t => t.id === taskId)\<close> shared by the three
  \<open>markTask\<close> methods.
\<close>

definition findTask :: "PlanManager \<Rightarrow> string \<Rightarrow> Task option" where
  "findTask m taskId =
     (case plan m of None \<Rightarrow> None | Some p \<Rightarrow> find (\<lambda>t. task_id t = taskId) (tasks p))"

section \<open>JavaScript strings\<close>

text \<open>
  A JavaScript string is a sequence of UTF-16 code units. The model carries the code
  units below 256 as \<open>char\<close>; among them \<open>String.prototype.trim\<close> and the regular
  expression class \<open>\s\<close> take the same seven for white space: tab, line feed, vertical
  tab, form feed, carriage return, space and no-break space.
\<close>

definition is_space :: "char \<Rightarrow> bool" where
  "is_space c \<longleftrightarrow> of_char c \<in> {9, 10, 11, 12, 13, 32, 160 :: nat}"

definition trim :: "string \<Rightarrow> string" where
  "trim s = rev (dropWhile is_space (rev (dropWhile is_space s)))"

definition starts_with :: "string \<Rightarrow> string \<Rightarrow> bool" where
  "starts_with p s \<longleftrightarrow> take (length p) s = p"

fun indexOf :: "string \<Rightarrow> string \<Rightarrow> nat option" where
  "indexOf p [] = (if p = [] then Some 0 else None)"
| "indexOf p (c # cs) =
     (if starts_with p (c # cs) then Some 0 else map_option Suc (indexOf p cs))"

definition substring :: "string \<Rightarrow> nat \<Rightarrow> nat \<Rightarrow> string" where
  "substring s a b = take (b - a) (drop a s)"

text \<open>\<open>s.replace(p, '')\<close> with a string pattern: the first occurrence of \<open>p\<close> is removed.\<close>

definition remove_first :: "string \<Rightarrow> string \<Rightarrow> string" where
  "remove_first p s =
     (case indexOf p s of None \<Rightarrow> s | Some i \<Rightarrow> take i s @ drop (i + length p) s)"

definition toLowerCase :: "string \<Rightarrow> string" where
  "toLowerCase s =
     map (\<lambda>c. let n = (of_char c :: nat)
               in if (65 \<le> n \<and> n \<le> 90) \<or> (192 \<le> n \<and> n \<le> 222 \<and> n \<noteq> 215)
                  then char_of (n + 32) else c) s"

text \<open>Truthiness of an optional string: defined and not empty.\<close>

fun truthy :: "string option \<Rightarrow> bool" where
  "truthy None = False"
| "truthy (Some s) = (s \<noteq> [])"

section \<open>JSON.parse\<close>

datatype json =
    JNull | JBool bool | JNumber int int | JString string
  | JArray "json list" | JObject "(string \<times> json) list"

datatype token =
    TLBrace | TRBrace | TLBracket | TRBracket | TComma | TColon
  | TString string | TWord string

datatype lex_state =
    LIdle | LString string | LEscape string | LUnicode string nat nat | LWord string

definition is_digit :: "char \<Rightarrow> bool" where
  "is_digit c \<longleftrightarrow> 48 \<le> (of_char c :: nat) \<and> (of_char c :: nat) \<le> 57"

definition is_letter :: "char \<Rightarrow> bool" where
  "is_letter c \<longleftrightarrow>
     (65 \<le> (of_char c :: nat) \<and> (of_char c :: nat) \<le> 90) \<or>
     (97 \<le> (of_char c :: nat) \<and> (of_char c :: nat) \<le> 122)"

definition is_word_char :: "char \<Rightarrow> bool" where
  "is_word_char c \<longleftrightarrow> is_digit c \<or> is_letter c \<or> c \<in> {CHR ''-'', CHR ''+'', CHR ''.''}"

definition json_ws :: "char \<Rightarrow> bool" where
  "json_ws c \<longleftrightarrow> of_char c \<in> {9, 10, 13, 32 :: nat}"

definition hex_val :: "char \<Rightarrow> nat option" where
  "hex_val c =
     (let n = (of_char c :: nat)
      in if 48 \<le> n \<and> n \<le> 57 then Some (n - 48)
         else if 65 \<le> n \<and> n \<le> 70 then Some (n - 55)
         else if 97 \<le> n \<and> n \<le> 102 then Some (n - 87)
         else None)"

definition start_token :: "char \<Rightarrow> (lex_state \<times> token list) option" where
  "start_token c =
     (if json_ws c then Some (LIdle, [])
      else if c = CHR ''{'' then Some (LIdle, [TLBrace])
      else if c = CHR ''}'' then Some (LIdle, [TRBrace])
      else if c = CHR ''['' then Some (LIdle, [TLBracket])
      else if c = CHR '']'' then Some (LIdle, [TRBracket])
      else if c = CHR '','' then Some (LIdle, [TComma])
      else if c = CHR '':'' then Some (LIdle, [TColon])
      else if c = CHR 0x22 then Some (LString [], [])
      else if is_word_char c then Some (LWord [c], [])
      else None)"

definition unescape :: "char \<Rightarrow> char option" where
  "unescape c =
     (if c = CHR 0x22 \<or> c = CHR 0x5C \<or> c = CHR ''/'' then Some c
      else if c = CHR ''b'' then Some (CHR 0x08)
      else if c = CHR ''f'' then Some (CHR 0x0C)
      else if c = CHR ''n'' then Some (CHR 0x0A)
      else if c = CHR ''r'' then Some (CHR 0x0D)
      else if c = CHR ''t'' then Some (CHR 0x09)
      else None)"

fun lex :: "lex_state \<Rightarrow> token list \<Rightarrow> string \<Rightarrow> token list option" where
  "lex LIdle acc [] = Some (rev acc)"
| "lex (LWord w) acc [] = Some (rev (TWord (rev w) # acc))"
| "lex (LString s) acc [] = None"
| "lex (LEscape s) acc [] = None"
| "lex (LUnicode s k v) acc [] = None"
| "lex LIdle acc (c # cs) =
     (case start_token c of
        None \<Rightarrow> None
      | Some (st, ts) \<Rightarrow> lex st (ts @ acc) cs)"
| "lex (LWord w) acc (c # cs) =
     (if is_word_char c then lex (LWord (c # w)) acc cs
      else (case start_token c of
              None \<Rightarrow> None
            | Some (st, ts) \<Rightarrow> lex st (ts @ TWord (rev w) # acc) cs))"
| "lex (LString s) acc (c # cs) =
     (if c = CHR 0x22 then lex LIdle (TString (rev s) # acc) cs
      else if c = CHR 0x5C then lex (LEscape s) acc cs
      else if (of_char c :: nat) < 32 then None
      else lex (LString (c # s)) acc cs)"
| "lex (LEscape s) acc (c # cs) =
     (if c = CHR ''u'' then lex (LUnicode s 0 0) acc cs
      else (case unescape c of
              None \<Rightarrow> None
            | Some d \<Rightarrow> lex (LString (d # s)) acc cs))"
| "lex (LUnicode s k v) acc (c # cs) =
     (case hex_val c of
        None \<Rightarrow> None
      | Some d \<Rightarrow>
          if k < 3 then lex (LUnicode s (Suc k) (16 * v + d)) acc cs
          else if 16 * v + d < 256 then lex (LString (char_of (16 * v + d) # s)) acc cs
          else None)"

definition digits_value :: "string \<Rightarrow> nat" where
  "digits_value ds = foldl (\<lambda>n c. 10 * n + (of_char c - 48)) 0 ds"

definition span_digits :: "string \<Rightarrow> string \<times> string" where
  "span_digits s = (takeWhile is_digit s, dropWhile is_digit s)"

definition number_value :: "string \<Rightarrow> json option" where
  "number_value w =
     (let (neg, r1) = (case w of c # r \<Rightarrow> if c = CHR ''-'' then (True, r) else (False, w)
                                | [] \<Rightarrow> (False, w));
          (ds, r2) = span_digits r1;
          (fs, r3) = (case r2 of c # r \<Rightarrow> if c = CHR ''.'' then span_digits r else ([], r2)
                               | [] \<Rightarrow> ([], r2));
          frac_ok = (case r2 of c # r \<Rightarrow> c = CHR ''.'' \<longrightarrow> fs \<noteq> [] | [] \<Rightarrow> True);
          int_ok = (ds \<noteq> [] \<and> (ds = ''0'' \<or> hd ds \<noteq> CHR ''0''));
          m = int (digits_value (ds @ fs));
          m = (if neg then - m else m)
      in if \<not> int_ok \<or> \<not> frac_ok then None
         else (case r3 of
                 [] \<Rightarrow> Some (JNumber m (- int (length fs)))
               | c # r4 \<Rightarrow>
                   if c = CHR ''e'' \<or> c = CHR ''E'' then
                     (let (eneg, r5) = (case r4 of d # r \<Rightarrow>
                                           if d = CHR ''-'' then (True, r)
                                           else if d = CHR ''+'' then (False, r) else (False, r4)
                                         | [] \<Rightarrow> (False, r4));
                          (es, r6) = span_digits r5;
                          e = int (digits_value es)
                      in if es = [] \<or> r6 \<noteq> [] then None
                         else Some (JNumber m ((if eneg then - e else e) - int (length fs))))
                   else None))"

definition word_value :: "string \<Rightarrow> json option" where
  "word_value w =
     (if w = ''true'' then Some (JBool True)
      else if w = ''false'' then Some (JBool False)
      else if w = ''null'' then Some JNull
      else number_value w)"

datatype frame = InArray "json list" | InObject "(string \<times> json) list" string

datatype parse_state =
    PValue "frame list"
  | PArrayStart "frame list"
  | PArrayNext "json list" "frame list"
  | PObjectStart "frame list"
  | PObjectNext "(string \<times> json) list" "frame list"
  | PKey "(string \<times> json) list" "frame list"
  | PColon "(string \<times> json) list" string "frame list"
  | PDone json

fun reduce :: "json \<Rightarrow> frame list \<Rightarrow> parse_state" where
  "reduce v [] = PDone v"
| "reduce v (InArray vs # st) = PArrayNext (v # vs) st"
| "reduce v (InObject kvs k # st) = PObjectNext ((k, v) # kvs) st"

fun value_step :: "frame list \<Rightarrow> token \<Rightarrow> parse_state option" where
  "value_step st TLBrace = Some (PObjectStart st)"
| "value_step st TLBracket = Some (PArrayStart st)"
| "value_step st (TString s) = Some (reduce (JString s) st)"
| "value_step st (TWord w) = map_option (\<lambda>v. reduce v st) (word_value w)"
| "value_step st _ = None"

fun parse_step :: "parse_state \<Rightarrow> token \<Rightarrow> parse_state option" where
  "parse_step (PValue st) t = value_step st t"
| "parse_step (PArrayStart st) t =
     (if t = TRBracket then Some (reduce (JArray []) st) else value_step (InArray [] # st) t)"
| "parse_step (PArrayNext vs st) t =
     (if t = TComma then Some (PValue (InArray vs # st))
      else if t = TRBracket then Some (reduce (JArray (rev vs)) st)
      else None)"
| "parse_step (PObjectStart st) t =
     (case t of
        TRBrace \<Rightarrow> Some (reduce (JObject []) st)
      | TString k \<Rightarrow> Some (PColon [] k st)
      | _ \<Rightarrow> None)"
| "parse_step (PObjectNext kvs st) t =
     (if t = TComma then Some (PKey kvs st)
      else if t = TRBrace then Some (reduce (JObject (rev kvs)) st)
      else None)"
| "parse_step (PKey kvs st) t = (case t of TString k \<Rightarrow> Some (PColon kvs k st) | _ \<Rightarrow> None)"
| "parse_step (PColon kvs k st) t =
     (if t = TColon then Some (PValue (InObject kvs k # st)) else None)"
| "parse_step (PDone v) t = None"

fun parse_tokens :: "parse_state \<Rightarrow> token list \<Rightarrow> json option" where
  "parse_tokens (PDone v) [] = Some v"
| "parse_tokens ps [] = None"
| "parse_tokens ps (t # ts) =
     (case parse_step ps t of None \<Rightarrow> None | Some ps' \<Rightarrow> parse_tokens ps' ts)"

definition JSON_parse :: "string \<Rightarrow> json option" where
  "JSON_parse s =
     (case lex LIdle [] s of
        None \<Rightarrow> None
      | Some ts \<Rightarrow> parse_tokens (PValue []) ts)"


text \<open>Property access on a parsed object: with a repeated key the last member wins.\<close>

definition getProp :: "string \<Rightarrow> (string \<times> json) list \<Rightarrow> json option" where
  "getProp k kvs = map_of (rev kvs) k"

text \<open>
  Truthiness of a parsed value. A number \<open>m * 10 ^ e\<close> is falsy when it is zero as a double,
  that is when \<open>m = 0\<close> or its magnitude is at most \<open>2 ^ -1075\<close> and rounds to zero.
\<close>

fun js_truthy :: "json \<Rightarrow> bool" where
  "js_truthy JNull = False"
| "js_truthy (JBool b) = b"
| "js_truthy (JNumber m e) =
     (\<not> (m = 0 \<or> (e < 0 \<and> \<bar>m\<bar> * 2 ^ 1075 \<le> 10 ^ nat (- e))))"
| "js_truthy (JString s) = (s \<noteq> [])"
| "js_truthy (JArray vs) = True"
| "js_truthy (JObject kvs) = True"

section \<open>Regular expressions\<close>

text \<open>
  The backtracking matcher of JavaScript for the constructs the source uses. A matcher
  takes the rest of the pattern as a continuation \<open>k\<close> and the text that is left; it
  returns the result of the first alternative, in the order of the engine, on which the
  continuation succeeds. A greedy star tries the longest repetition first, a lazy star the
  shortest.
\<close>

definition lit :: "string \<Rightarrow> (string \<Rightarrow> 'a option) \<Rightarrow> string \<Rightarrow> 'a option" where
  "lit p k s = (if starts_with p s then k (drop (length p) s) else None)"

definition opt :: "string \<Rightarrow> (string \<Rightarrow> 'a option) \<Rightarrow> string \<Rightarrow> 'a option" where
  "opt p k s = (case lit p k s of Some r \<Rightarrow> Some r | None \<Rightarrow> k s)"

fun star_greedy :: "(char \<Rightarrow> bool) \<Rightarrow> (string \<Rightarrow> 'a option) \<Rightarrow> string \<Rightarrow> 'a option" where
  "star_greedy P k [] = k []"
| "star_greedy P k (c # cs) =
     (if P c then (case star_greedy P k cs of Some r \<Rightarrow> Some r | None \<Rightarrow> k (c # cs))
      else k (c # cs))"

fun star_lazy :: "(char \<Rightarrow> bool) \<Rightarrow> (string \<Rightarrow> 'a option) \<Rightarrow> string \<Rightarrow> 'a option" where
  "star_lazy P k [] = k []"
| "star_lazy P k (c # cs) =
     (case k (c # cs) of Some r \<Rightarrow> Some r | None \<Rightarrow> if P c then star_lazy P k cs else None)"

definition plus_greedy :: "(char \<Rightarrow> bool) \<Rightarrow> (string \<Rightarrow> 'a option) \<Rightarrow> string \<Rightarrow> 'a option" where
  "plus_greedy P k s = (case s of [] \<Rightarrow> None | c # cs \<Rightarrow> if P c then star_greedy P k cs else None)"

text \<open>
  A regular expression is given by its matcher at one position: the text from that
  position on is mapped to the first capture group and the text after the match.
  \<open>scan_matches\<close> is the loop \<open>while ((match = re.exec(s)) !== null)\<close> of a global
  expression: the matches from left to right, each search starting where the last match
  ended; it yields \<open>match[0]\<close> and \<open>match[1]\<close> of every match. \<open>remove_matches\<close> is
  \<open>s.replace(re, '')\<close>. The counter \<open>skip\<close> is the number of characters of the current
  match still to pass.
\<close>

type_synonym regex = "string \<Rightarrow> (string \<times> string) option"

fun scan_matches :: "regex \<Rightarrow> nat \<Rightarrow> string \<Rightarrow> (string \<times> string) list" where
  "scan_matches re skip [] = []"
| "scan_matches re skip (c # cs) =
     (if skip > 0 then scan_matches re (skip - 1) cs
      else (case re (c # cs) of
              None \<Rightarrow> scan_matches re 0 cs
            | Some (group1, rest) \<Rightarrow>
                (take (length (c # cs) - length rest) (c # cs), group1)
                  # scan_matches re (length (c # cs) - length rest - 1) cs))"

fun remove_matches :: "regex \<Rightarrow> nat \<Rightarrow> string \<Rightarrow> string" where
  "remove_matches re skip [] = []"
| "remove_matches re skip (c # cs) =
     (if skip > 0 then remove_matches re (skip - 1) cs
      else (case re (c # cs) of
              None \<Rightarrow> c # remove_matches re 0 cs
            | Some (group1, rest) \<Rightarrow>
                remove_matches re (length (c # cs) - length rest - 1) cs))"

section \<open>Tool-call extractor (src/agent/parser.ts)\<close>

text \<open>
  \<open>normalizeToolName\<close> looks the lower-cased name up in an object literal. Such a lookup
  also finds the members inherited from \<open>Object.prototype\<close>; of these, \<open>constructor\<close> and
  \<open>__proto__\<close> are spelled in lower case and are truthy, so for them the function returns
  the inherited member, which is not a string.
\<close>

datatype tool_name = Name string | Inherited string

definition normalizeToolName :: "string \<Rightarrow> tool_name" where
  "normalizeToolName name =
     (let mapping = [(''readfile'', ''read_file''), (''read-file'', ''read_file''),
                     (''writefile'', ''write_file''), (''write-file'', ''write_file''),
                     (''editfile'', ''edit_file''), (''edit-file'', ''edit_file'')];
          key = toLowerCase name
      in case map_of mapping key of
           Some canonical \<Rightarrow> Name canonical
         | None \<Rightarrow> if key = ''constructor'' \<or> key = ''__proto__'' then Inherited key
                   else Name name)"

record ParsedToolCall =
  name :: tool_name
  parameters :: json

text \<open>
  One \<open>try\<close> block of \<open>tryParseToolCall\<close>: \<open>JSON.parse\<close>, then the test
  \<open>parsed.name && typeof parsed.name === 'string'\<close>. A syntax error, the \<open>TypeError\<close> of
  reading \<open>null.name\<close> and a failed test all lead to the next block, hence to \<open>None\<close> here.
\<close>

definition parse_attempt :: "string \<Rightarrow> ParsedToolCall option" where
  "parse_attempt s =
     (case JSON_parse s of
        Some (JObject parsed) \<Rightarrow>
          (case getProp ''name'' parsed of
             Some (JString n) \<Rightarrow>
               if n \<noteq> [] then
                 Some \<lparr>name = normalizeToolName n,
                       parameters = (case getProp ''parameters'' parsed of
                                       None \<Rightarrow> JObject []
                                     | Some v \<Rightarrow> if js_truthy v then v else JObject [])\<rparr>
               else None
           | _ \<Rightarrow> None)
      | _ \<Rightarrow> None)"

text \<open>
  The repair \<open>fixed.replace(/'([^'\\]*(?:\\.[^'\\]*)*)'/g, '"$1"')\<close>. From an opening quote
  the expression has at most one way to match: plain characters and backslash pairs up to
  the next quote, where \<open>.\<close> takes no line terminator. \<open>close_quote\<close> gives the length of
  the group; \<open>fix_quotes\<close> replaces the two quotes of every match, its state being the
  number of characters of the group still to copy.
\<close>

definition line_terminator :: "char \<Rightarrow> bool" where
  "line_terminator c \<longleftrightarrow> c = CHR 0x0A \<or> c = CHR 0x0D"

fun close_quote :: "string \<Rightarrow> nat option" where
  "close_quote [] = None"
| "close_quote [c] = (if c = CHR 0x27 then Some 0 else None)"
| "close_quote (c # d # cs) =
     (if c = CHR 0x27 then Some 0
      else if c = CHR 0x5C then
        (if line_terminator d then None else map_option (\<lambda>n. n + 2) (close_quote cs))
      else map_option Suc (close_quote (d # cs)))"

fun fix_quotes :: "nat option \<Rightarrow> string \<Rightarrow> string" where
  "fix_quotes st [] = []"
| "fix_quotes None (c # cs) =
     (if c = CHR 0x27 then
        (case close_quote cs of
           Some n \<Rightarrow> CHR 0x22 # fix_quotes (Some n) cs
         | None \<Rightarrow> c # fix_quotes None cs)
      else c # fix_quotes None cs)"
| "fix_quotes (Some 0) (c # cs) = CHR 0x22 # fix_quotes None cs"
| "fix_quotes (Some (Suc n)) (c # cs) = c # fix_quotes (Some n) cs"

text \<open>\<open>fixed.replace(/\}[\s\S]*$/, '}')\<close>: everything after the first closing brace goes.\<close>

definition strip_trailing :: "string \<Rightarrow> string" where
  "strip_trailing s =
     (case indexOf ''}'' s of None \<Rightarrow> s | Some i \<Rightarrow> take (Suc i) s)"

definition tryParseToolCall :: "string \<Rightarrow> ParsedToolCall option" where
  "tryParseToolCall jsonStr =
     (case parse_attempt jsonStr of
        Some parsed \<Rightarrow> Some parsed
      | None \<Rightarrow>
          (let fixed = fix_quotes None jsonStr
           in case parse_attempt fixed of
                Some parsed \<Rightarrow> Some parsed
              | None \<Rightarrow> parse_attempt (strip_trailing fixed)))"

text \<open>\<open>/<tool_?call>\s*([\s\S]*?)\s*<\/tool_?call>/g\<close>\<close>

definition toolCallRegex :: regex where
  "toolCallRegex =
     lit ''<tool'' (opt ''_'' (lit ''call>'' (star_greedy is_space (\<lambda>s1.
       star_lazy (\<lambda>c. True) (\<lambda>s2.
         star_greedy is_space (lit ''</tool'' (opt ''_'' (lit ''call>'' (\<lambda>rest.
           Some (take (length s1 - length s2) s1, rest))))) s2) s1))))"

text \<open>\<open>/```(?:json)?\s*\n?\s*(\{[\s\S]*?"name"\s*:\s*"[^"]+[\s\S]*?\})\s*\n?```/g\<close>\<close>

definition jsonBlockRegex :: regex where
  \<open>jsonBlockRegex =
     lit ''```'' (opt ''json'' (star_greedy is_space (opt ''\<newline>'' (star_greedy is_space (\<lambda>s1.
       lit ''{'' (star_lazy (\<lambda>c. True) (lit ''"name"'' (star_greedy is_space (lit '':''
         (star_greedy is_space (lit ''"'' (plus_greedy (\<lambda>c. c \<noteq> CHR 0x22)
           (star_lazy (\<lambda>c. True) (lit ''}'' (\<lambda>s2.
              star_greedy is_space (opt ''\<newline>'' (lit ''```'' (\<lambda>rest.
                Some (take (length s1 - length s2) s1, rest)))) s2)))))))))) s1)))))\<close>

text \<open>
  The inner loop of the third pattern: from index \<open>i\<close>, with \<open>braceCount\<close> braces open,
  find the index after the closing brace that brings the count to zero.
\<close>

fun brace_scan :: "string \<Rightarrow> nat \<Rightarrow> int \<Rightarrow> nat option" where
  "brace_scan [] i braceCount = None"
| "brace_scan (c # cs) i braceCount =
     (if c = CHR ''{'' then brace_scan cs (Suc i) (braceCount + 1)
      else if c = CHR ''}'' then
        (if braceCount - 1 = 0 then Some (Suc i) else brace_scan cs (Suc i) (braceCount - 1))
      else brace_scan cs (Suc i) braceCount)"

definition toolNames :: "string list" where
  "toolNames =
     [''read_file'', ''readfile'', ''read-file'',
      ''write_file'', ''writefile'', ''write-file'',
      ''edit_file'', ''editfile'', ''edit-file'',
      ''bash'', ''glob'']"

definition standalone_step ::
  "string \<Rightarrow> string \<times> ParsedToolCall list \<Rightarrow> string \<Rightarrow> string \<times> ParsedToolCall list" where
  \<open>standalone_step response acc toolName =
     (let (text, toolCalls) = acc;
          startPattern = ''{"name": "'' @ toolName @ ''"''
      in case indexOf startPattern response of
           None \<Rightarrow> (text, toolCalls)
         | Some startIdx \<Rightarrow>
             (let jsonStart = startIdx
              in case brace_scan (drop jsonStart response) jsonStart 0 of
                   None \<Rightarrow> (text, toolCalls)
                 | Some jsonEnd \<Rightarrow>
                     if jsonEnd > jsonStart then
                       (let jsonStr = substring response jsonStart jsonEnd
                        in case tryParseToolCall jsonStr of
                             None \<Rightarrow> (text, toolCalls)
                           | Some parsed \<Rightarrow>
                               (trim (remove_first jsonStr text), toolCalls @ [parsed]))
                     else (text, toolCalls)))\<close>

definition jsonBlock_step ::
  "string \<times> ParsedToolCall list \<Rightarrow> string \<times> string \<Rightarrow> string \<times> ParsedToolCall list" where
  "jsonBlock_step acc m =
     (let (text, toolCalls) = acc; (match0, match1) = m
      in case tryParseToolCall (trim match1) of
           None \<Rightarrow> (text, toolCalls)
         | Some parsed \<Rightarrow> (trim (remove_first match0 text), toolCalls @ [parsed]))"

record ParseResult =
  result_text :: string
  toolCalls :: "ParsedToolCall list"

definition parseToolCalls :: "string \<Rightarrow> ParseResult" where
  "parseToolCalls response =
     (let calls = List.map_filter (\<lambda>(match0, match1). tryParseToolCall (trim match1))
                    (scan_matches toolCallRegex 0 response);
          text = trim (remove_matches toolCallRegex 0 response);
          (text, calls) = foldl jsonBlock_step (text, calls) (scan_matches jsonBlockRegex 0 response);
          (text, calls) = (if length calls = 0
                           then foldl (standalone_step response) (text, calls) toolNames
                           else (text, calls))
      in \<lparr>result_text = text, toolCalls = calls\<rparr>)"

section \<open>Verifier (src/planning/verifier.ts)\<close>

record VerificationResult =
  vr_success :: bool
  vr_command :: string
  vr_output :: string
  vr_exitCode :: int

text \<open>
  The promise of \<open>execAsync\<close>: it resolves with the two captured streams, or rejects with
  an \<open>Error\<close> that may carry the streams, the exit code and the \<open>killed\<close> flag (set when the
  timeout killed the child). The process itself is outside the program: \<open>exec\<close> is a
  parameter, a function of the command, the working directory, the timeout and the state
  \<open>'w\<close> of the outside world.
\<close>

record ExecError =
  message :: string
  stdout :: "string option"
  stderr :: "string option"
  code :: "int option"
  killed :: "bool option"

datatype exec_outcome = Resolved string string | Rejected ExecError

type_synonym 'w exec_fn = "string \<Rightarrow> string \<Rightarrow> nat \<Rightarrow> 'w \<Rightarrow> exec_outcome \<times> 'w"

record Verifier =
  verifier_workingDirectory :: string
  timeout :: nat

definition runCommand :: "'w exec_fn \<Rightarrow> Verifier \<Rightarrow> string \<Rightarrow> 'w \<Rightarrow> VerificationResult \<times> 'w" where
  "runCommand exec v command w =
     (case exec command (verifier_workingDirectory v) (timeout v) w of
        (Resolved out err, w') \<Rightarrow>
          let output = out @ (if err \<noteq> [] then ''\<newline>stderr:\<newline>'' @ err else [])
          in (\<lparr>vr_success = True, vr_command = command,
               vr_output = (if trim output \<noteq> [] then trim output
                            else ''(completed with no output)''),
               vr_exitCode = 0\<rparr>, w')
      | (Rejected execError, w') \<Rightarrow>
          let output = [];
              output = (if truthy (stdout execError) then output @ the (stdout execError) else output);
              output = (if truthy (stderr execError)
                        then output @ (if output \<noteq> [] then ''\<newline>'' else []) @ the (stderr execError)
                        else output);
              output = (if output = [] \<and> message execError \<noteq> [] then message execError
                        else output)
          in (\<lparr>vr_success = False, vr_command = command, vr_output = trim output,
               vr_exitCode = (case code execError of
                                None \<Rightarrow> 1
                              | Some c \<Rightarrow> if c = 0 then 1 else c)\<rparr>, w'))"

definition runBuild :: "'w exec_fn \<Rightarrow> Verifier \<Rightarrow> string \<Rightarrow> 'w \<Rightarrow> VerificationResult \<times> 'w" where
  "runBuild exec v buildCommand = runCommand exec v buildCommand"

definition runTests :: "'w exec_fn \<Rightarrow> Verifier \<Rightarrow> string \<Rightarrow> 'w \<Rightarrow> VerificationResult \<times> 'w" where
  "runTests exec v testCommand = runCommand exec v testCommand"

definition runLint :: "'w exec_fn \<Rightarrow> Verifier \<Rightarrow> string \<Rightarrow> 'w \<Rightarrow> VerificationResult \<times> 'w" where
  "runLint exec v lintCommand = runCommand exec v lintCommand"

text \<open>
  \<open>verifyAll\<close>: the three \<open>if\<close> statements in the order of the source, over the local
  variables \<open>results\<close> and \<open>allSuccess\<close>.
\<close>

definition verifyAll ::
  "'w exec_fn \<Rightarrow> Verifier \<Rightarrow> VerifyCommands \<Rightarrow> 'w \<Rightarrow> (bool \<times> VerificationResult list) \<times> 'w" where
  "verifyAll exec v commands w =
     (let results = []; allSuccess = True;
          (results, allSuccess, w) =
            (if truthy (lint commands) then
               (let (result, w) = runLint exec v (the (lint commands)) w
                in (results @ [result], (if \<not> vr_success result then False else allSuccess), w))
             else (results, allSuccess, w));
          (results, allSuccess, w) =
            (if truthy (build commands) \<and> allSuccess then
               (let (result, w) = runBuild exec v (the (build commands)) w
                in (results @ [result], (if \<not> vr_success result then False else allSuccess), w))
             else (results, allSuccess, w));
          (results, allSuccess, w) =
            (if truthy (test commands) \<and> allSuccess then
               (let (result, w) = runTests exec v (the (test commands)) w
                in (results @ [result], (if \<not> vr_success result then False else allSuccess), w))
             else (results, allSuccess, w))
      in ((allSuccess, results), w))"

section \<open>Conversation context (src/agent/context.ts)\<close>

datatype Role = system | user | assistant | tool

record Message =
  role :: Role
  content :: string
  toolCallId :: "string option"

record ConversationContext =
  messages :: "Message list"
  context_workingDirectory :: string
  planMode :: bool

text \<open>\<open>findIndex\<close> followed by an assignment at that index, or \<open>unshift\<close> when there is none.\<close>

definition addSystemMessage :: "ConversationContext \<Rightarrow> string \<Rightarrow> ConversationContext" where
  "addSystemMessage context c =
     (let systemMessage = \<lparr>role = system, content = c, toolCallId = None\<rparr>
      in if list_ex (\<lambda>m. role m = system) (messages context)
         then context\<lparr>messages :=
                update_found (\<lambda>m. role m = system) (\<lambda>m. systemMessage) (messages context)\<rparr>
         else context\<lparr>messages := systemMessage # messages context\<rparr>)"

definition addUserMessage :: "ConversationContext \<Rightarrow> string \<Rightarrow> ConversationContext" where
  "addUserMessage context c =
     context\<lparr>messages := messages context @ [\<lparr>role = user, content = c, toolCallId = None\<rparr>]\<rparr>"

definition addAssistantMessage :: "ConversationContext \<Rightarrow> string \<Rightarrow> ConversationContext" where
  "addAssistantMessage context c =
     context\<lparr>messages := messages context @ [\<lparr>role = assistant, content = c, toolCallId = None\<rparr>]\<rparr>"

section \<open>Tools and providers (src/tools/base.ts, src/tools/index.ts, src/providers/base.ts)\<close>

text \<open>
  A value thrown, or the reason of a rejected promise: an \<open>Error\<close> with its message. An
  awaited call yields \<open>Inl\<close> of it when the promise rejects.
\<close>

datatype js_error = Error string

fun error_message :: "js_error \<Rightarrow> string" where
  "error_message (Error msg) = msg"

record ToolParameter =
  param_type :: string
  param_description :: string
  required :: "bool option"

record ToolDefinition =
  def_name :: string
  def_description :: string
  def_parameters :: "(string \<times> ToolParameter) list"

record ToolResult =
  tr_success :: bool
  tr_output :: string
  tr_error :: "string option"

record ToolContext =
  tc_workingDirectory :: string

text \<open>
  A tool is its \<open>definition\<close> and its \<open>execute\<close> method (the field \<open>tool_execute\<close>, since
  \<open>execute\<close> names the method of the executor below); a provider is its \<open>chat\<close> method.
  Both act on the world outside the program, whose state has the type \<open>'w\<close>.
\<close>

record 'w Tool =
  tool_definition :: ToolDefinition
  tool_execute :: "json \<Rightarrow> ToolContext \<Rightarrow> 'w \<Rightarrow> (js_error + ToolResult) \<times> 'w"

record ChatResponse =
  response_content :: string
  finishReason :: "string option"

text \<open>\<open>formatToolResult\<close> of parser.ts.\<close>

definition formatToolResult :: "string \<Rightarrow> ToolResult \<Rightarrow> string" where
  \<open>formatToolResult toolName result =
     (if tr_success result
      then ''<tool_result name="'' @ toolName @ ''">\<newline>'' @ tr_output result @ ''\<newline></tool_result>''
      else ''<tool_result name="'' @ toolName @ ''" error="true">\<newline>'' @
           (if truthy (tr_error result) then the (tr_error result) else ''Unknown error'') @
           ''\<newline></tool_result>'')\<close>

definition join :: "string \<Rightarrow> string list \<Rightarrow> string" where
  "join sep xs = (case xs of [] \<Rightarrow> [] | y # ys \<Rightarrow> foldl (\<lambda>acc x. acc @ sep @ x) y ys)"

definition formatToolsForPrompt :: "'w Tool list \<Rightarrow> string" where
  \<open>formatToolsForPrompt tools =
     (let toolDescriptions =
            map (\<lambda>t.
                   let params =
                         join ''\<newline>''
                           (map (\<lambda>(name, param).
                                   ''    - '' @ name @ '': '' @ param_type param @
                                   (if required param \<noteq> Some False then '' (required)'' else []) @
                                   '' - '' @ param_description param)
                              (def_parameters (tool_definition t)))
                   in ''- '' @ def_name (tool_definition t) @ '': '' @
                      def_description (tool_definition t) @ ''\<newline>  Parameters:\<newline>'' @ params)
              tools
      in ''YOU HAVE ACCESS TO THESE TOOLS - USE THEM:\<newline>'' @
         join ''\<newline>\<newline>'' toolDescriptions @
         ''\<newline>\<newline>HOW TO USE TOOLS:\<newline>'' @
         ''Output a tool call like this (the system will execute it):\<newline>'' @
         ''<tool_call>\<newline>'' @
         ''{"name": "write_file", "parameters": {"path": "game.py", "content": "import curses'' @
         [CHR 0x5C] @ ''n..."}}\<newline>'' @
         ''</tool_call>\<newline>\<newline>'' @
         ''EXAMPLE - Creating a Python file:\<newline>'' @
         ''<tool_call>\<newline>'' @
         ''{"name": "write_file", "parameters": {"path": "hello.py", "content": "print('Hello World!')"}}\<newline>'' @
         ''</tool_call>\<newline>\<newline>'' @
         ''YOU CAN CREATE FILES. YOU CAN RUN COMMANDS. USE THE TOOLS ABOVE.\<newline>'' @
         ''Do NOT say you cannot create files - use write_file instead.\<newline>'' @
         ''Do NOT put code in markdown blocks - use write_file to save it.'')\<close>

text \<open>
  \<open>getToolByName\<close> compares with \<open>===\<close>; a name that is not a string equals no tool name.
  \<open>name_text\<close> is the conversion of a name inside a template literal.
\<close>

fun getToolByName :: "'w Tool list \<Rightarrow> tool_name \<Rightarrow> 'w Tool option" where
  "getToolByName tools (Name n) = find (\<lambda>t. def_name (tool_definition t) = n) tools"
| "getToolByName tools (Inherited k) = None"

fun name_text :: "tool_name \<Rightarrow> string" where
  "name_text (Name n) = n"
| "name_text (Inherited k) =
     (if k = ''constructor'' then ''function Object() { [native code] }'' else ''[object Object]'')"

section \<open>Agent loop (src/agent/agent.ts)\<close>

definition MAX_TOOL_ITERATIONS :: nat where
  "MAX_TOOL_ITERATIONS = 20"

text \<open>
  The configuration of an agent. The optional callbacks \<open>onToolCall\<close>, \<open>onToolResult\<close> and
  \<open>onThinking\<close> and the terminal spinner only report what happens; they are taken to
  return normally and are left out.
\<close>

record 'w AgentConfig =
  chat :: "Message list \<Rightarrow> 'w \<Rightarrow> (js_error + ChatResponse) \<times> 'w"
  tools :: "'w Tool list"

definition buildSystemPrompt :: "'w AgentConfig \<Rightarrow> ConversationContext \<Rightarrow> string" where
  \<open>buildSystemPrompt cfg context =
     (let toolsPrompt = formatToolsForPrompt (tools cfg);
          prompt =
            ''You are OpenCoder, an AI coding assistant running in a terminal.\<newline>\<newline>'' @
            ''Current working directory: '' @ context_workingDirectory context @ ''\<newline>'' @
            ''Platform: macOS (use python3, not python)\<newline>\<newline>'' @
            toolsPrompt @ ''\<newline>\<newline>'' @
            ''CRITICAL RULES:\<newline>'' @
            ''1. When asked to implement/create/write code, you MUST use write_file tool - do NOT just show code in text\<newline>'' @
            ''2. NEVER show code in markdown blocks when you should be writing files\<newline>'' @
            ''3. If user asks to "implement", "create", "make", or "write" something, USE THE TOOLS\<newline>'' @
            ''4. If you encounter an error, REPORT it - do NOT try to auto-fix\<newline>\<newline>'' @
            ''HOW TO USE TOOLS - wrap tool calls in <tool_call> tags:\<newline>'' @
            ''<tool_call>{"name": "write_file", "parameters": {"path": "example.py", "content": "print('hello')"}}</tool_call>\<newline>\<newline>'' @
            ''Guidelines:\<newline>'' @
            ''- Use write_file to create files, read_file to read, bash to run commands\<newline>'' @
            ''- Be concise in responses\<newline>'' @
            ''- Always read a file before editing it''
      in if planMode context
         then prompt @
            ''\<newline>\<newline>PLAN MODE ACTIVE: You are in read-only planning mode.\<newline>'' @
            ''- Do NOT use write_file, edit_file, or bash commands that modify files\<newline>'' @
            ''- Focus on exploring the codebase and designing an approach\<newline>'' @
            ''- Use read_file and glob to understand the code structure''
         else prompt)\<close>

text \<open>
  The loop \<open>for (const toolCall of toolCalls)\<close>, with the results collected so far. A
  rejected \<open>execute\<close> leaves the loop with the error.
\<close>

fun run_tools ::
  "'w AgentConfig \<Rightarrow> ToolContext \<Rightarrow> ParsedToolCall list \<Rightarrow> string list \<Rightarrow> 'w
     \<Rightarrow> (js_error + string list) \<times> 'w" where
  "run_tools cfg toolContext [] toolResults w = (Inr toolResults, w)"
| "run_tools cfg toolContext (toolCall # rest) toolResults w =
     (case getToolByName (tools cfg) (name toolCall) of
        None \<Rightarrow>
          (let errorResult =
                 formatToolResult (name_text (name toolCall))
                   \<lparr>tr_success = False, tr_output = [],
                    tr_error = Some (''Unknown tool: '' @ name_text (name toolCall))\<rparr>
           in run_tools cfg toolContext rest (toolResults @ [errorResult]) w)
      | Some found \<Rightarrow>
          (case tool_execute found (parameters toolCall) toolContext w of
             (Inl err, w') \<Rightarrow> (Inl err, w')
           | (Inr result, w') \<Rightarrow>
               (let formattedResult = formatToolResult (name_text (name toolCall)) result
                in run_tools cfg toolContext rest (toolResults @ [formattedResult]) w')))"

text \<open>
  The \<open>while\<close> loop of \<open>run\<close> over the local variables \<open>iteration\<close> and \<open>finalResponse\<close>.
  The context is changed in place, so the caller sees its last state also when the call
  throws: the result is the value returned or thrown, the context and the world.
\<close>

function run_loop ::
  "'w AgentConfig \<Rightarrow> nat \<Rightarrow> string \<Rightarrow> ConversationContext \<Rightarrow> 'w
     \<Rightarrow> (js_error + string) \<times> ConversationContext \<times> 'w" where
  "run_loop cfg iteration finalResponse context w =
     (if iteration < MAX_TOOL_ITERATIONS then
        (case chat cfg (messages context) w of
           (Inl err, w') \<Rightarrow> (Inl err, context, w')
         | (Inr response, w') \<Rightarrow>
             (let parsed = parseToolCalls (response_content response);
                  finalResponse' = (if result_text parsed \<noteq> [] then result_text parsed
                                    else finalResponse)
              in if length (toolCalls parsed) = 0 then
                   (Inr (if finalResponse' \<noteq> [] then finalResponse'
                         else response_content response),
                    addAssistantMessage context (response_content response), w')
                 else
                   (case run_tools cfg \<lparr>tc_workingDirectory = context_workingDirectory context\<rparr>
                           (toolCalls parsed) [] w' of
                      (Inl err, w'') \<Rightarrow> (Inl err, context, w'')
                    | (Inr toolResults, w'') \<Rightarrow>
                        run_loop cfg (Suc iteration) finalResponse'
                          (addUserMessage
                             (addAssistantMessage context (response_content response))
                             (join ''\<newline>\<newline>'' toolResults))
                          w'')))
      else
        (Inr (if finalResponse \<noteq> [] then finalResponse
              else ''I was unable to complete the task within the maximum number of steps.''),
         context, w))"
  by pat_completeness auto
termination
  by (relation "measure (\<lambda>(cfg, iteration, finalResponse, context, w). MAX_TOOL_ITERATIONS - iteration)")
     auto

declare run_loop.simps [simp del]

definition run ::
  "'w AgentConfig \<Rightarrow> string \<Rightarrow> ConversationContext \<Rightarrow> 'w
     \<Rightarrow> (js_error + string) \<times> ConversationContext \<times> 'w" where
  "run cfg userMessage context w =
     (let systemPrompt = buildSystemPrompt cfg context;
          context = addSystemMessage context systemPrompt;
          context = addUserMessage context userMessage
      in run_loop cfg 0 [] context w)"

section \<open>Persistence (src/planning/plan-manager.ts)\<close>



section \<open>Executor (src/planning/executor.ts)\<close>

record ExecutionResult =
  er_task :: Task
  er_success :: bool
  er_output :: string
  er_verification :: "VerificationResult option"

text \<open>
  The fields of the class \<open>Executor\<close>; the notification callbacks are left out, as for the
  agent. What lies outside the program is the environment: the process runner of the
  verifier, and \<open>stopCalled\<close>, which tells whether \<open>stop()\<close> was called while \<open>execute\<close> was
  suspended on a task.
\<close>

record 'w Executor =
  ex_agent :: "'w AgentConfig"
  ex_planManager :: PlanManager
  ex_verifier :: Verifier
  ex_config :: PlanConfig
  ex_context :: ConversationContext
  isRunning :: bool
  shouldStop :: bool

record 'w Environment =
  env_exec :: "'w exec_fn"
  stopCalled :: "'w \<Rightarrow> bool"

text \<open>Decimal digits of a number inside a template literal.\<close>

function show_nat :: "nat \<Rightarrow> string" where
  "show_nat n =
     (if n < 10 then [char_of (48 + n)] else show_nat (n div 10) @ [char_of (48 + n mod 10)])"
  by pat_completeness auto
termination
  by (relation "measure id") auto

declare show_nat.simps [simp del]

definition buildTaskPrompt :: "Task \<Rightarrow> string" where
  \<open>buildTaskPrompt task =
     (let attemptInfo =
            (if attempts task > 0
             then ''\<newline>\<newline>This is attempt '' @ show_nat (attempts task + 1) @ ''/'' @
                  show_nat (maxAttempts task) @ ''. Previous attempt failed with: '' @
                  (case error task of None \<Rightarrow> ''undefined'' | Some e \<Rightarrow> e)
             else [])
      in ''## Task: '' @ title task @ ''\<newline>\<newline>'' @
         description task @ attemptInfo @ ''\<newline>\<newline>'' @
         ''Instructions:\<newline>'' @
         ''- Implement this specific task only\<newline>'' @
         ''- Use the tools to create/modify files as needed\<newline>'' @
         ''- Be thorough but focused on this task\<newline>'' @
         ''- After you're done, the build will be run to verify your changes'')\<close>

definition attemptFix ::
  "'w Executor \<Rightarrow> Task \<Rightarrow> string \<Rightarrow> 'w \<Rightarrow> (bool \<times> string) \<times> 'w Executor \<times> 'w" where
  \<open>attemptFix e task err w =
     (let fixPrompt =
            ''The build/test failed after implementing "'' @ title task @ ''".\<newline>\<newline>'' @
            ''Error output:\<newline>'' @
            ''```\<newline>'' @ err @ ''\<newline>```\<newline>\<newline>'' @
            ''Please analyze the error and fix the issue. Use the tools to read the relevant files, understand the problem, and make the necessary corrections.''
      in case run (ex_agent e) fixPrompt (ex_context e) w of
           (Inr response, context, w') \<Rightarrow> ((True, response), e\<lparr>ex_context := context\<rparr>, w')
         | (Inl thrown, context, w') \<Rightarrow>
             ((False, error_message thrown), e\<lparr>ex_context := context\<rparr>, w'))\<close>

text \<open>
  \<open>executeTask\<close>: the agent runs the task prompt, then the build and the test command gate
  the result. Everything is inside one \<open>try\<close> block, so the method always returns a result.
\<close>

definition executeTask ::
  "'w Environment \<Rightarrow> 'w Executor \<Rightarrow> Task \<Rightarrow> 'w \<Rightarrow> ExecutionResult \<times> 'w Executor \<times> 'w" where
  "executeTask env e task w =
     (let prompt = buildTaskPrompt task
      in case run (ex_agent e) prompt (ex_context e) w of
           (Inl thrown, context, w) \<Rightarrow>
             (\<lparr>er_task = task, er_success = False, er_output = error_message thrown,
               er_verification = None\<rparr>, e\<lparr>ex_context := context\<rparr>, w)
         | (Inr response, context, w) \<Rightarrow>
             (let e = e\<lparr>ex_context := context\<rparr>
              in case plan (ex_planManager e) of
                   None \<Rightarrow>
                     (\<lparr>er_task = task, er_success = False,
                       er_output = ''Cannot read properties of null (reading 'verifyCommands')'',
                       er_verification = None\<rparr>, e, w)
                 | Some p \<Rightarrow>
                     (let (verification, e, w) =
                            (if runBuildAfterEachTask (ex_config e) \<and> truthy (build (verifyCommands p))
                             then
                               (let (verification, w) =
                                      runBuild (env_exec env) (ex_verifier e) (the (build (verifyCommands p))) w
                                in if \<not> vr_success verification then
                                     (let (fixResult, e, w) = attemptFix e task (vr_output verification) w
                                      in if fst fixResult then
                                           (let (verification, w) =
                                                  runBuild (env_exec env) (ex_verifier e)
                                                    (the (build (verifyCommands p))) w
                                            in (Some verification, e, w))
                                         else (Some verification, e, w))
                                   else (Some verification, e, w))
                             else (None, e, w));
                          (verification, w) =
                            (if runTestAfterEachTask (ex_config e) \<and> truthy (test (verifyCommands p)) \<and>
                                map_option vr_success verification \<noteq> Some False
                             then
                               (let (testResult, w) =
                                      runTests (env_exec env) (ex_verifier e) (the (test (verifyCommands p))) w
                                in if \<not> vr_success testResult then (Some testResult, w)
                                   else (verification, w))
                             else (verification, w))
                      in (\<lparr>er_task = task, er_success = (map_option vr_success verification \<noteq> Some False),
                           er_output = response, er_verification = verification\<rparr>, e, w))))"

text \<open>
  The variable \<open>task\<close> of \<open>execute\<close> refers to the element of \<open>plan.tasks\<close> that
  \<open>getNextTask\<close> returned, and the \<open>markTask\<close> methods change task objects in place. The
  model reads that object where the source reads \<open>task\<close>: it is the task at the cursor,
  which \<open>getNextTask\<close> has just set and which nothing else moves.
\<close>

definition task_at_cursor :: "PlanManager \<Rightarrow> Task" where
  "task_at_cursor m = (case plan m of Some p \<Rightarrow> tasks p ! currentTaskIndex p)"

text \<open>
  The loop \<open>while (!this.shouldStop)\<close>. Nothing bounds the number of its rounds, so the
  model counts them down from \<open>fuel\<close> and yields \<open>None\<close> when the loop is still running
  after that many.
\<close>

fun execute_loop ::
  "nat \<Rightarrow> 'w Environment \<Rightarrow> 'w Executor \<Rightarrow> bool \<Rightarrow> 'w \<Rightarrow> (bool \<times> 'w Executor \<times> 'w) option" where
  "execute_loop 0 env e allSuccess w = None"
| "execute_loop (Suc fuel) env e allSuccess w =
     (if shouldStop e then Some (allSuccess, e, w)
      else (case getNextTask (ex_planManager e) of
              (None, m) \<Rightarrow> Some (allSuccess, e\<lparr>ex_planManager := m\<rparr>, w)
            | (Some found, m) \<Rightarrow>
                (let taskId = task_id found;
                     e = e\<lparr>ex_planManager := markTaskInProgress taskId m\<rparr>;
                     (result, e, w) = executeTask env e (task_at_cursor (ex_planManager e)) w;
                     e = e\<lparr>shouldStop := shouldStop e \<or> stopCalled env w\<rparr>
                 in if er_success result then
                      execute_loop fuel env
                        (e\<lparr>ex_planManager := markTaskCompleted taskId (ex_planManager e)\<rparr>)
                        allSuccess w
                    else
                      (let task = task_at_cursor (ex_planManager e);
                           willRetry = (attempts task < maxAttempts task);
                           e = e\<lparr>ex_planManager :=
                                  markTaskFailed taskId (er_output result) (ex_planManager e)\<rparr>
                       in if \<not> willRetry then
                            (if stopOnFirstFailure (ex_config e) then Some (False, e, w)
                             else execute_loop fuel env e False w)
                          else execute_loop fuel env e allSuccess w))))"

definition planContext :: "Plan \<Rightarrow> string" where
  \<open>planContext p =
     ''You are implementing a plan. Here's the overall goal and context:\<newline>\<newline>'' @
     ''Goal: '' @ goal p @ ''\<newline>\<newline>'' @
     ''Summary: '' @ summary p @ ''\<newline>\<newline>'' @
     ''You will receive individual tasks to implement. After each task, the build/tests will be run to verify your work.\<newline>'' @
     ''If something fails, you'll be asked to fix it. Focus on completing one task at a time.''\<close>

text \<open>
  \<open>execute\<close> up to its loop: the guard, the flags, \<open>startExecution\<close> (whose result is not
  looked at) and the first message of the conversation.
\<close>

definition execute_start :: "'w Executor \<Rightarrow> js_error + 'w Executor" where
  "execute_start e =
     (if \<not> isApproved (ex_planManager e) then Inl (Error ''Plan must be approved before execution'')
      else
        (let e = e\<lparr>isRunning := True, shouldStop := False\<rparr>;
             e = e\<lparr>ex_planManager := snd (startExecution (ex_planManager e))\<rparr>
         in case plan (ex_planManager e) of
              None \<Rightarrow> Inl (Error ''Cannot read properties of null (reading 'goal')'')
            | Some p \<Rightarrow> Inr (e\<lparr>ex_context := addUserMessage (ex_context e) (planContext p)\<rparr>)))"

definition execute ::
  "nat \<Rightarrow> 'w Environment \<Rightarrow> 'w Executor \<Rightarrow> 'w \<Rightarrow> ((js_error + bool) \<times> 'w Executor \<times> 'w) option" where
  "execute fuel env e w =
     (case execute_start e of
        Inl thrown \<Rightarrow> Some (Inl thrown, e, w)
      | Inr e \<Rightarrow>
          (case execute_loop fuel env e True w of
             None \<Rightarrow> None
           | Some (allSuccess, e, w) \<Rightarrow>
               (let e = e\<lparr>isRunning := False\<rparr>;
                    finalSuccess = (case plan (ex_planManager e) of
                                      None \<Rightarrow> False
                                    | Some p \<Rightarrow> plan_status p = plan_completed)
                in Some (Inr finalSuccess, e, w))))"

section \<open>Vocabulary for the properties of the plan manager\<close>

text \<open>
  The status of the current plan, if there is one; one failing run of a task as the
  executor performs it (\<open>markTaskInProgress\<close> at the start of the run, \<open>markTaskFailed\<close> at
  its end); the calls a client may make on a manager that keep its plan object; and the
  position of a plan status along draft, approved, in progress, completed or failed.
\<close>

definition planStatus :: "PlanManager \<Rightarrow> PlanStatus option" where
  "planStatus m = map_option plan_status (plan m)"

definition failedRun :: "string \<Rightarrow> PlanManager \<Rightarrow> string \<Rightarrow> PlanManager" where
  "failedRun taskId m err = markTaskFailed taskId err (markTaskInProgress taskId m)"

datatype manager_op =
    ApprovePlan | StartExecution | GetNextTask
  | MarkTaskInProgress string | MarkTaskCompleted string | MarkTaskFailed string string
  | SetVerifyCommands VerifyCommands

fun apply_op :: "PlanManager \<Rightarrow> manager_op \<Rightarrow> PlanManager" where
  "apply_op m ApprovePlan = snd (approvePlan m)"
| "apply_op m StartExecution = snd (startExecution m)"
| "apply_op m GetNextTask = snd (getNextTask m)"
| "apply_op m (MarkTaskInProgress taskId) = markTaskInProgress taskId m"
| "apply_op m (MarkTaskCompleted taskId) = markTaskCompleted taskId m"
| "apply_op m (MarkTaskFailed taskId err) = markTaskFailed taskId err m"
| "apply_op m (SetVerifyCommands commands) = setVerifyCommands commands m"

fun plan_rank :: "PlanStatus \<Rightarrow> nat" where
  "plan_rank draft = 0"
| "plan_rank approved = 1"
| "plan_rank plan_in_progress = 2"
| "plan_rank plan_completed = 3"
| "plan_rank plan_failed = 3"

fun status_le :: "PlanStatus option \<Rightarrow> PlanStatus option \<Rightarrow> bool" where
  "status_le None None = True"
| "status_le (Some a) (Some b) = (plan_rank a \<le> plan_rank b)"
| "status_le _ _ = False"

text \<open>
  Example values: a task with three attempts allowed, and a manager that holds a plan
  over a given task list.
\<close>

definition demo_task :: "string \<Rightarrow> string list \<Rightarrow> TaskStatus \<Rightarrow> nat \<Rightarrow> Task" where
  "demo_task i deps st n =
     \<lparr>task_id = i, title = ''title'', description = ''description'', status = st,
      dependencies = deps, verifyCommand = None, attempts = n, maxAttempts = 3, error = None\<rparr>"

definition demo_manager :: "PlanStatus \<Rightarrow> Task list \<Rightarrow> bool \<Rightarrow> PlanManager" where
  "demo_manager st ts stop =
     \<lparr>plan = Some \<lparr>plan_id = ''0a1b2c3d'', goal = ''add a health endpoint'', createdAt = ''now'',
                    plan_status = st, summary = ''summary'', tasks = ts, currentTaskIndex = 0,
                    verifyCommands = \<lparr>build = None, test = None, lint = None\<rparr>,
                    workingDirectory = ''/project''\<rparr>,
      config = DEFAULT_PLAN_CONFIG\<lparr>stopOnFirstFailure := stop\<rparr>,
      planDir = ''/project/.opencoder''\<rparr>"

section \<open>Vocabulary for the properties of the verifier\<close>

text \<open>
  The aggregate check as the specification words it: run the configured commands in the
  order lint, build, test and stop after the first that fails. \<open>demo_exec\<close> is a process
  runner whose world is the log of the commands it was given; its build command fails.
\<close>

fun run_in_order ::
  "'w exec_fn \<Rightarrow> Verifier \<Rightarrow> string list \<Rightarrow> 'w \<Rightarrow> (bool \<times> VerificationResult list) \<times> 'w" where
  "run_in_order exec v [] w = ((True, []), w)"
| "run_in_order exec v (c # cs) w =
     (let (r, w') = runCommand exec v c w
      in if vr_success r
         then (let ((ok, rs), w'') = run_in_order exec v cs w' in ((ok, r # rs), w''))
         else ((False, [r]), w'))"

definition configured :: "VerifyCommands \<Rightarrow> string list" where
  "configured commands =
     map the (filter truthy [lint commands, build commands, test commands])"

definition demo_exec :: "string list exec_fn" where
  "demo_exec command cwd t log =
     ((if command = ''npm run build''
       then Rejected \<lparr>message = ''Command failed: npm run build'', stdout = Some [],
                      stderr = Some ''error TS2304: Cannot find name'', code = Some 2,
                      killed = Some False\<rparr>
       else Resolved ''ok'' []),
      log @ [command])"

section \<open>Vocabulary for the properties of persistence\<close>



section \<open>Vocabulary for the properties of the executor\<close>

text \<open>
  \<open>remaining_runs\<close> bounds the rounds the loop of \<open>execute\<close> can still make: every pending
  task counts for the attempts it has left, and one more. \<open>unique_ids\<close> says that no two
  tasks of the plan share an identifier, as is the case for every plan that \<open>createPlan\<close>
  builds.
\<close>

definition remaining_runs :: "PlanManager \<Rightarrow> nat" where
  "remaining_runs m =
     (case plan m of
        None \<Rightarrow> 0
      | Some p \<Rightarrow>
          sum_list (map (\<lambda>t. if status t = pending then Suc (maxAttempts t - attempts t) else 0)
                      (tasks p)))"

definition unique_ids :: "PlanManager \<Rightarrow> bool" where
  "unique_ids m = (case plan m of None \<Rightarrow> True | Some p \<Rightarrow> distinct (map task_id (tasks p)))"

text \<open>
  Example values: a provider that answers \<open>Done.\<close> to everything and logs the call, an
  executor over it with the default configuration, and an environment in which \<open>stop()\<close>
  is never called.
\<close>

definition demo_chat :: "Message list \<Rightarrow> string list \<Rightarrow> (js_error + ChatResponse) \<times> string list" where
  "demo_chat msgs log =
     (Inr \<lparr>response_content = ''Done.'', finishReason = Some ''stop''\<rparr>, log @ [''chat''])"

definition demo_executor :: "PlanManager \<Rightarrow> string list Executor" where
  "demo_executor m =
     \<lparr>ex_agent = \<lparr>chat = demo_chat, tools = []\<rparr>,
      ex_planManager = m,
      ex_verifier = \<lparr>verifier_workingDirectory = ''/project'', timeout = 60000\<rparr>,
      ex_config = DEFAULT_PLAN_CONFIG,
      ex_context = \<lparr>messages = [], context_workingDirectory = ''/project'', planMode = False\<rparr>,
      isRunning = False, shouldStop = False\<rparr>"

definition demo_environment :: "string list Environment" where
  "demo_environment = \<lparr>env_exec = demo_exec, stopCalled = (\<lambda>log. False)\<rparr>"

section \<open>Vocabulary for the properties of the agent loop\<close>

text \<open>
  To count the turns of a run, the world is paired with a counter: \<open>counting\<close> turns an
  agent configuration into one whose provider adds one to the counter at every call of
  \<open>chat\<close> and whose tools leave the counter alone.
\<close>

definition count_chat ::
  "(Message list \<Rightarrow> 'w \<Rightarrow> (js_error + ChatResponse) \<times> 'w)
     \<Rightarrow> Message list \<Rightarrow> 'w \<times> nat \<Rightarrow> (js_error + ChatResponse) \<times> ('w \<times> nat)" where
  "count_chat c msgs = (\<lambda>(w, n). case c msgs w of (r, w') \<Rightarrow> (r, (w', Suc n)))"

definition lift_tool :: "'w Tool \<Rightarrow> ('w \<times> nat) Tool" where
  "lift_tool t =
     \<lparr>tool_definition = tool_definition t,
      tool_execute = (\<lambda>params toolContext (w, n).
                        case tool_execute t params toolContext w of (r, w') \<Rightarrow> (r, (w', n)))\<rparr>"

definition counting :: "'w AgentConfig \<Rightarrow> ('w \<times> nat) AgentConfig" where
  "counting cfg = \<lparr>chat = count_chat (chat cfg), tools = map lift_tool (tools cfg)\<rparr>"

text \<open>
  Example values: a provider that asks for the \<open>glob\<close> tool in every completion, a \<open>bash\<close>
  tool whose execution reports a failure, and an empty conversation.
\<close>

definition demo_tool_chat :: "Message list \<Rightarrow> string list \<Rightarrow> (js_error + ChatResponse) \<times> string list" where
  \<open>demo_tool_chat msgs log =
     (Inr \<lparr>response_content = ''<tool_call>{"name": "glob"}</tool_call>'', finishReason = Some ''stop''\<rparr>,
      log @ [''chat''])\<close>


definition demo_context :: ConversationContext where
  "demo_context = \<lparr>messages = [], context_workingDirectory = ''/project'', planMode = False\<rparr>"

section \<open>Vocabulary for the properties of the extractor\<close>

text \<open>
  \<open>brace_depth\<close> is the number of opening braces of a text minus the number of its closing
  braces. A text \<open>closes\<close> a count \<open>n\<close> of open braces when it ends with a closing brace that
  brings the count to zero. \<open>tagged_and_fenced\<close> is the state of \<open>parseToolCalls\<close> after its
  first two patterns: the text and the tool calls found so far.
\<close>

definition brace_depth :: "string \<Rightarrow> int" where
  "brace_depth s = int (count_list s CHR ''{'') - int (count_list s CHR ''}'')"

definition closes :: "int \<Rightarrow> string \<Rightarrow> bool" where
  "closes n p \<longleftrightarrow> p \<noteq> [] \<and> last p = CHR ''}'' \<and> n + brace_depth p = 0"

definition tagged_and_fenced :: "string \<Rightarrow> string \<times> ParsedToolCall list" where
  "tagged_and_fenced response =
     foldl jsonBlock_step
       (trim (remove_matches toolCallRegex 0 response),
        List.map_filter (\<lambda>(match0, match1). tryParseToolCall (trim match1))
          (scan_matches toolCallRegex 0 response))
       (scan_matches jsonBlockRegex 0 response)"

section \<open>Task selection\<close>

lemma getNextTask_loop_Some:
  "getNextTask_loop p k = Some i \<Longrightarrow>
     k \<le> i \<and> i < length (tasks p) \<and> status (tasks p ! i) = pending \<and> depsComplete p (tasks p ! i)
     \<and> (\<forall>j. k \<le> j \<and> j < i \<longrightarrow> \<not> (status (tasks p ! j) = pending \<and> depsComplete p (tasks p ! j)))"
proof (induction p k rule: getNextTask_loop.induct)
  case (1 p k)
  show ?case
  proof (cases "k < length (tasks p) \<and> \<not> (status (tasks p ! k) = pending \<and> depsComplete p (tasks p ! k))")
    case True
    then have "getNextTask_loop p (Suc k) = Some i"
      using "1.prems" by (subst (asm) getNextTask_loop.simps) auto
    with True "1.IH" have ih: "Suc k \<le> i \<and> i < length (tasks p) \<and> status (tasks p ! i) = pending \<and> depsComplete p (tasks p ! i)
     \<and> (\<forall>j. Suc k \<le> j \<and> j < i \<longrightarrow> \<not> (status (tasks p ! j) = pending \<and> depsComplete p (tasks p ! j)))"
      by blast
    have "\<And>j. k \<le> j \<Longrightarrow> j < i \<Longrightarrow> \<not> (status (tasks p ! j) = pending \<and> depsComplete p (tasks p ! j))"
    proof -
      fix j assume "k \<le> j" "j < i"
      then consider "j = k" | "Suc k \<le> j" by linarith
      then show "\<not> (status (tasks p ! j) = pending \<and> depsComplete p (tasks p ! j))"
        using True ih \<open>j < i\<close> by cases auto
    qed
    with ih show ?thesis by auto
  next
    case False
    then show ?thesis using "1.prems"
      by (subst (asm) getNextTask_loop.simps) (auto split: if_splits)
  qed
qed

lemma getNextTask_loop_None:
  "getNextTask_loop p k = None \<Longrightarrow> k \<le> j \<Longrightarrow> j < length (tasks p) \<Longrightarrow>
     \<not> (status (tasks p ! j) = pending \<and> depsComplete p (tasks p ! j))"
proof (induction p k rule: getNextTask_loop.induct)
  case (1 p k)
  from "1.prems" have kl: "k < length (tasks p)" by linarith
  from "1.prems"(1) kl have nk: "\<not> (status (tasks p ! k) = pending \<and> depsComplete p (tasks p ! k))"
    and nxt: "getNextTask_loop p (Suc k) = None"
    by (subst (asm) getNextTask_loop.simps, auto split: if_splits)+
  show ?case
  proof (cases "j = k")
    case True with nk show ?thesis by simp
  next
    case False
    with "1.prems" have "Suc k \<le> j" by linarith
    with "1.IH" kl nk nxt "1.prems" show ?thesis by blast
  qed
qed

lemma getNextTask_loop_here:
  "i < length (tasks p) \<Longrightarrow> status (tasks p ! i) = pending \<Longrightarrow> depsComplete p (tasks p ! i) \<Longrightarrow>
   getNextTask_loop p i = Some i"
  by (subst getNextTask_loop.simps) simp

lemma depsComplete_cursor [simp]:
  "depsComplete (p\<lparr>currentTaskIndex := i\<rparr>) t = depsComplete p t"
  by (simp add: depsComplete_def)

lemma depsComplete_iff:
  "depsComplete p t \<longleftrightarrow>
     (\<forall>d \<in> set (dependencies t). \<exists>dep. find (\<lambda>x. task_id x = d) (tasks p) = Some dep \<and> status dep = completed)"
  by (auto simp: depsComplete_def list_all_iff split: option.splits)

lemma find_distinct_ids:
  "distinct (map task_id ts) \<Longrightarrow> x \<in> set ts \<Longrightarrow> find (\<lambda>t. task_id t = task_id x) ts = Some x"
  by (induction ts) (auto simp: rev_image_eqI)


text \<open>
  Claim C1. With a plan loaded, \<open>getNextTask\<close> scans the task list from the stored cursor
  forward and returns the first task that is pending and whose dependencies all name a
  completed task; the cursor becomes the index of that task. When no task from the cursor
  on qualifies it returns none and leaves the manager as it was. The task returned has no
  incomplete dependency (with unique task identifiers: every task it depends on is
  completed), and calling \<open>getNextTask\<close> again, with no status change in between, returns
  the same task and the same manager. No assumption on the shape of the dependency graph
  is needed, so the property holds in particular for every acyclic one.
\<close>

theorem getNextTask_first_runnable:
  assumes "plan m = Some p"
  shows "case getNextTask m of
           (None, m') \<Rightarrow>
              m' = m \<and>
              (\<forall>j. currentTaskIndex p \<le> j \<and> j < length (tasks p) \<longrightarrow>
                   \<not> (status (tasks p ! j) = pending \<and> depsComplete p (tasks p ! j)))
         | (Some t, m') \<Rightarrow>
              (\<exists>i. currentTaskIndex p \<le> i \<and> i < length (tasks p) \<and> t = tasks p ! i \<and>
                   (\<forall>j. currentTaskIndex p \<le> j \<and> j < i \<longrightarrow>
                        \<not> (status (tasks p ! j) = pending \<and> depsComplete p (tasks p ! j))) \<and>
                   m' = m\<lparr>plan := Some (p\<lparr>currentTaskIndex := i\<rparr>)\<rparr>) \<and>
              status t = pending \<and>
              (\<forall>d \<in> set (dependencies t).
                   \<exists>dep. find (\<lambda>x. task_id x = d) (tasks p) = Some dep \<and> status dep = completed) \<and>
              (distinct (map task_id (tasks p)) \<longrightarrow>
                 (\<forall>dep \<in> set (tasks p). task_id dep \<in> set (dependencies t) \<longrightarrow> status dep = completed)) \<and>
              getNextTask m' = (Some t, m')"
proof (cases "getNextTask_loop p (currentTaskIndex p)")
  case None
  then have "getNextTask m = (None, m)"
    using assms by (simp add: getNextTask_def)
  then show ?thesis
    using getNextTask_loop_None [OF None] by auto
next
  case (Some i)
  let ?t = "tasks p ! i"
  let ?m' = "m\<lparr>plan := Some (p\<lparr>currentTaskIndex := i\<rparr>)\<rparr>"
  have res: "getNextTask m = (Some ?t, ?m')"
    using assms Some by (simp add: getNextTask_def)
  note facts = getNextTask_loop_Some [OF Some]
  have deps: "\<forall>d \<in> set (dependencies ?t).
                \<exists>dep. find (\<lambda>x. task_id x = d) (tasks p) = Some dep \<and> status dep = completed"
    using facts by (simp add: depsComplete_iff)
  have uniq: "distinct (map task_id (tasks p)) \<longrightarrow>
                (\<forall>dep \<in> set (tasks p). task_id dep \<in> set (dependencies ?t) \<longrightarrow> status dep = completed)"
  proof (intro impI ballI)
    fix dep assume d: "distinct (map task_id (tasks p))" "dep \<in> set (tasks p)"
       "task_id dep \<in> set (dependencies ?t)"
    from deps d(3) obtain dep' where "find (\<lambda>x. task_id x = task_id dep) (tasks p) = Some dep'"
       "status dep' = completed" by blast
    with find_distinct_ids [OF d(1) d(2)] show "status dep = completed" by simp
  qed
  have "getNextTask_loop (p\<lparr>currentTaskIndex := i\<rparr>) i = Some i"
    using facts by (intro getNextTask_loop_here) simp_all
  then have again: "getNextTask ?m' = (Some ?t, ?m')"
    by (simp add: getNextTask_def)
  show ?thesis
    unfolding res using facts deps uniq again by auto
qed

theorem getNextTask_first_runnable_witness:
  "plan (demo_manager plan_in_progress
           [demo_task ''task-1'' [] completed 1, demo_task ''task-2'' [''task-1''] pending 0,
            demo_task ''task-3'' [''task-2''] pending 0] False) \<noteq> None \<and>
   fst (getNextTask (demo_manager plan_in_progress
           [demo_task ''task-1'' [] completed 1, demo_task ''task-2'' [''task-1''] pending 0,
            demo_task ''task-3'' [''task-2''] pending 0] False))
     = Some (demo_task ''task-2'' [''task-1''] pending 0) \<and>
   map_option currentTaskIndex (plan (snd (getNextTask (demo_manager plan_in_progress
           [demo_task ''task-1'' [] completed 1, demo_task ''task-2'' [''task-1''] pending 0,
            demo_task ''task-3'' [''task-2''] pending 0] False)))) = Some 1"
proof -
  let ?ts = "[demo_task ''task-1'' [] completed 1, demo_task ''task-2'' [''task-1''] pending 0,
              demo_task ''task-3'' [''task-2''] pending 0]"
  let ?m = "demo_manager plan_in_progress ?ts False"
  obtain p where p: "plan ?m = Some p" and ts: "tasks p = ?ts" and c: "currentTaskIndex p = 0"
    by (simp add: demo_manager_def)
  have dc: "depsComplete p (?ts ! Suc 0)"
    by (simp add: depsComplete_def ts demo_task_def)
  have l0: "getNextTask_loop p 0 = getNextTask_loop p (Suc 0)"
    by (subst getNextTask_loop.simps) (simp add: ts demo_task_def)
  have l1: "getNextTask_loop p (Suc 0) = Some (Suc 0)"
    using dc by (subst getNextTask_loop.simps) (simp add: ts demo_task_def)
  have r: "getNextTask ?m = (Some (?ts ! Suc 0), ?m\<lparr>plan := Some (p\<lparr>currentTaskIndex := Suc 0\<rparr>)\<rparr>)"
    using p by (simp add: getNextTask_def c l0 l1 ts)
  show ?thesis
    using getNextTask_first_runnable [OF p] p r by simp
qed

section \<open>Retry bound of a task\<close>

lemma find_update_found:
  "find P xs = Some x \<Longrightarrow> (\<And>y. P y \<Longrightarrow> P (f y)) \<Longrightarrow> find P (update_found P f xs) = Some (f x)"
  by (induction xs) (auto split: if_splits)

lemma find_update_found_None:
  "find P xs = None \<Longrightarrow> update_found P f xs = xs"
  by (induction xs) (auto split: if_splits)

lemma findTask_markTaskInProgress:
  "findTask m tid = Some t \<Longrightarrow>
   findTask (markTaskInProgress tid m) tid = Some (t\<lparr>status := in_progress, attempts := attempts t + 1\<rparr>)"
  by (auto simp: findTask_def markTaskInProgress_def find_update_found split: option.splits)

lemma planStatus_markTaskInProgress:
  "planStatus (markTaskInProgress tid m) = planStatus m"
  by (auto simp: planStatus_def markTaskInProgress_def split: option.splits)

lemma findTask_markTaskFailed:
  "findTask m tid = Some t \<Longrightarrow>
   findTask (markTaskFailed tid e m) tid =
     Some (if attempts t < maxAttempts t then t\<lparr>error := Some e, status := pending\<rparr>
           else t\<lparr>error := Some e, status := failed\<rparr>)"
  by (auto simp: findTask_def markTaskFailed_def find_update_found Let_def split: option.splits)

lemma planStatus_markTaskFailed:
  "findTask m tid = Some t \<Longrightarrow>
   planStatus (markTaskFailed tid e m) =
     (if attempts t \<ge> maxAttempts t \<and> stopOnFirstFailure (config m) then Some plan_failed
      else planStatus m)"
  by (auto simp: findTask_def planStatus_def markTaskFailed_def Let_def split: option.splits)

lemma config_markTaskFailed [simp]: "config (markTaskFailed tid e m) = config m"
  by (auto simp: markTaskFailed_def Let_def split: option.splits)

lemma config_markTaskInProgress [simp]: "config (markTaskInProgress tid m) = config m"
  by (auto simp: markTaskInProgress_def Let_def split: option.splits)

lemma findTask_failedRun:
  "findTask m tid = Some t \<Longrightarrow>
   findTask (failedRun tid m e) tid =
     Some (t\<lparr>attempts := attempts t + 1, error := Some e,
             status := (if attempts t + 1 < maxAttempts t then pending else failed)\<rparr>)"
  by (simp add: failedRun_def findTask_markTaskFailed [OF findTask_markTaskInProgress])

lemma findTask_foldl_failedRun:
  "findTask m tid = Some t \<Longrightarrow> es \<noteq> [] \<Longrightarrow>
   findTask (foldl (failedRun tid) m es) tid =
     Some (t\<lparr>attempts := attempts t + length es, error := Some (last es),
             status := (if attempts t + length es < maxAttempts t then pending else failed)\<rparr>)"
proof (induction es arbitrary: m t)
  case Nil
  then show ?case by simp
next
  case (Cons e es)
  note step = findTask_failedRun [OF Cons.prems(1), of e]
  show ?case
  proof (cases "es = []")
    case True
    then show ?thesis using step by simp
  next
    case False
    from Cons.IH [OF step False] show ?thesis using False by simp
  qed
qed

lemma find_update_found_id:
  assumes "\<And>x. task_id (f x) = task_id x"
  shows "find (\<lambda>t. task_id t = a) (update_found (\<lambda>t. task_id t = b) f xs) =
           (if a = b then map_option f (find (\<lambda>t. task_id t = a) xs)
            else find (\<lambda>t. task_id t = a) xs)"
  using assms by (induction xs) auto

lemma findTask_checkPlanCompletion [simp]:
  "findTask (checkPlanCompletion m) tid = findTask m tid"
  by (auto simp: findTask_def checkPlanCompletion_def Let_def split: option.splits)

lemma findTask_markTaskInProgress_any:
  "findTask (markTaskInProgress b m) a =
     (if a = b then map_option (\<lambda>t. t\<lparr>status := in_progress, attempts := attempts t + 1\<rparr>) (findTask m a)
      else findTask m a)"
  by (simp add: findTask_def markTaskInProgress_def find_update_found_id split: option.splits)

lemma findTask_markTaskCompleted_any:
  "findTask (markTaskCompleted b m) a =
     (if a = b then map_option (\<lambda>t. t\<lparr>status := completed, error := None\<rparr>) (findTask m a)
      else findTask m a)"
  unfolding markTaskCompleted_def findTask_checkPlanCompletion
  by (simp add: findTask_def find_update_found_id split: option.splits)

lemma findTask_markTaskFailed_any:
  "findTask (markTaskFailed b e m) a =
     (if a = b then map_option (\<lambda>t. if attempts t \<ge> maxAttempts t
                                then t\<lparr>error := Some e, status := failed\<rparr>
                                else t\<lparr>error := Some e, status := pending\<rparr>) (findTask m a)
      else findTask m a)"
  by (simp add: findTask_def markTaskFailed_def find_update_found_id find_update_found_None Let_def
           split: option.splits)

lemma apply_op_exhausted:
  assumes "findTask m tid = Some t" "maxAttempts t \<le> attempts t" "status t \<noteq> pending"
  shows "\<exists>t'. findTask (apply_op m op) tid = Some t' \<and> maxAttempts t' \<le> attempts t' \<and>
              status t' \<noteq> pending"
proof (cases op)
  case ApprovePlan
  then show ?thesis using assms
    by (auto simp: findTask_def approvePlan_def split: option.splits)
next
  case StartExecution
  then show ?thesis using assms
    by (auto simp: findTask_def startExecution_def split: option.splits)
next
  case GetNextTask
  then show ?thesis using assms
    by (auto simp: findTask_def getNextTask_def split: option.splits)
next
  case (MarkTaskInProgress b)
  then show ?thesis using assms by (auto simp: findTask_markTaskInProgress_any)
next
  case (MarkTaskCompleted b)
  then show ?thesis using assms by (auto simp: findTask_markTaskCompleted_any)
next
  case (MarkTaskFailed b e)
  then show ?thesis using assms by (auto simp: findTask_markTaskFailed_any)
next
  case (SetVerifyCommands c)
  then show ?thesis using assms
    by (auto simp: findTask_def setVerifyCommands_def split: option.splits)
qed

lemma apply_ops_exhausted:
  assumes "findTask m tid = Some t" "maxAttempts t \<le> attempts t" "status t \<noteq> pending"
  shows "\<exists>t'. findTask (foldl apply_op m ops) tid = Some t' \<and> maxAttempts t' \<le> attempts t' \<and>
            status t' \<noteq> pending"
  using assms
proof (induction ops arbitrary: m t)
  case Nil
  then show ?case by simp
next
  case (Cons op ops)
  from apply_op_exhausted [OF Cons.prems, of op] obtain t' where
    "findTask (apply_op m op) tid = Some t'" "maxAttempts t' \<le> attempts t'" "status t' \<noteq> pending"
    by blast
  from Cons.IH [OF this] show ?case by simp
qed

text \<open>
  Claim C2. For the task that \<open>taskId\<close> names, \<open>markTaskInProgress\<close> sets the status to in
  progress and adds exactly one to \<open>attempts\<close>. \<open>markTaskFailed\<close> stores the error; with
  \<open>attempts < maxAttempts\<close> it puts the task back to pending and leaves the plan status
  alone, with \<open>attempts \<ge> maxAttempts\<close> it makes the task failed and, when the manager is
  configured to stop on the first failure, makes the plan failed. Hence a fresh task that
  is run and fails fewer than \<open>maxAttempts\<close> times is pending again, one that is run and
  fails exactly \<open>maxAttempts\<close> times is failed with \<open>attempts = maxAttempts\<close>, and after that
  no sequence of calls on the manager makes it pending again.
\<close>

theorem retry_bound:
  assumes "findTask m tid = Some t"
  shows "findTask (markTaskInProgress tid m) tid =
           Some (t\<lparr>status := in_progress, attempts := attempts t + 1\<rparr>) \<and>
         (attempts t < maxAttempts t \<longrightarrow>
            findTask (markTaskFailed tid e m) tid = Some (t\<lparr>error := Some e, status := pending\<rparr>) \<and>
            planStatus (markTaskFailed tid e m) = planStatus m) \<and>
         (maxAttempts t \<le> attempts t \<longrightarrow>
            findTask (markTaskFailed tid e m) tid = Some (t\<lparr>error := Some e, status := failed\<rparr>) \<and>
            planStatus (markTaskFailed tid e m) =
              (if stopOnFirstFailure (config m) then Some plan_failed else planStatus m)) \<and>
         (attempts t = 0 \<and> es \<noteq> [] \<and> length es < maxAttempts t \<longrightarrow>
            map_option status (findTask (foldl (failedRun tid) m es) tid) = Some pending) \<and>
         (attempts t = 0 \<and> es \<noteq> [] \<and> length es = maxAttempts t \<longrightarrow>
            map_option status (findTask (foldl (failedRun tid) m es) tid) = Some failed \<and>
            map_option attempts (findTask (foldl (failedRun tid) m es) tid) = Some (maxAttempts t) \<and>
            (\<forall>ops. \<exists>t'. findTask (foldl apply_op (foldl (failedRun tid) m es) ops) tid = Some t' \<and>
                         status t' \<noteq> pending))"
proof -
  have a: "findTask (markTaskInProgress tid m) tid =
           Some (t\<lparr>status := in_progress, attempts := attempts t + 1\<rparr>)"
    by (rule findTask_markTaskInProgress [OF assms])
  have b: "attempts t < maxAttempts t \<longrightarrow>
            findTask (markTaskFailed tid e m) tid = Some (t\<lparr>error := Some e, status := pending\<rparr>) \<and>
            planStatus (markTaskFailed tid e m) = planStatus m"
    by (simp add: findTask_markTaskFailed [OF assms] planStatus_markTaskFailed [OF assms])
  have c: "maxAttempts t \<le> attempts t \<longrightarrow>
            findTask (markTaskFailed tid e m) tid = Some (t\<lparr>error := Some e, status := failed\<rparr>) \<and>
            planStatus (markTaskFailed tid e m) =
              (if stopOnFirstFailure (config m) then Some plan_failed else planStatus m)"
    by (simp add: findTask_markTaskFailed [OF assms] planStatus_markTaskFailed [OF assms])
  have d: "attempts t = 0 \<and> es \<noteq> [] \<and> length es < maxAttempts t \<longrightarrow>
            map_option status (findTask (foldl (failedRun tid) m es) tid) = Some pending"
    by (simp add: findTask_foldl_failedRun [OF assms])
  have e: "attempts t = 0 \<and> es \<noteq> [] \<and> length es = maxAttempts t \<longrightarrow>
            map_option status (findTask (foldl (failedRun tid) m es) tid) = Some failed \<and>
            map_option attempts (findTask (foldl (failedRun tid) m es) tid) = Some (maxAttempts t) \<and>
            (\<forall>ops. \<exists>t'. findTask (foldl apply_op (foldl (failedRun tid) m es) ops) tid = Some t' \<and>
                         status t' \<noteq> pending)"
  proof (intro impI, elim conjE)
    assume h: "attempts t = 0" "es \<noteq> []" "length es = maxAttempts t"
    let ?t' = "t\<lparr>attempts := attempts t + length es, error := Some (last es),
             status := (if attempts t + length es < maxAttempts t then pending else failed)\<rparr>"
    have f: "findTask (foldl (failedRun tid) m es) tid = Some ?t'"
      by (rule findTask_foldl_failedRun [OF assms h(2)])
    have "\<forall>ops. \<exists>t'. findTask (foldl apply_op (foldl (failedRun tid) m es) ops) tid = Some t' \<and>
                         status t' \<noteq> pending"
      using apply_ops_exhausted [OF f] h by auto
    then show "map_option status (findTask (foldl (failedRun tid) m es) tid) = Some failed \<and>
            map_option attempts (findTask (foldl (failedRun tid) m es) tid) = Some (maxAttempts t) \<and>
            (\<forall>ops. \<exists>t'. findTask (foldl apply_op (foldl (failedRun tid) m es) ops) tid = Some t' \<and>
                         status t' \<noteq> pending)"
      using f h by simp
  qed
  from a b c d e show ?thesis by blast
qed

theorem retry_bound_witness:
  "findTask (demo_manager plan_in_progress [demo_task ''task-1'' [] pending 0] True) ''task-1''
     = Some (demo_task ''task-1'' [] pending 0) \<and>
   map_option status
     (findTask (foldl (failedRun ''task-1'')
        (demo_manager plan_in_progress [demo_task ''task-1'' [] pending 0] True)
        [''e1'', ''e2'', ''e3'']) ''task-1'') = Some failed \<and>
   map_option status
     (findTask (foldl (failedRun ''task-1'')
        (demo_manager plan_in_progress [demo_task ''task-1'' [] pending 0] True)
        [''e1'', ''e2'']) ''task-1'') = Some pending"
proof -
  let ?m = "demo_manager plan_in_progress [demo_task ''task-1'' [] pending 0] True"
  let ?t = "demo_task ''task-1'' [] pending 0"
  have h: "findTask ?m ''task-1'' = Some ?t"
    by (simp add: findTask_def demo_manager_def demo_task_def)
  have t: "attempts ?t = 0" "maxAttempts ?t = 3"
    by (simp_all add: demo_task_def)
  show ?thesis
    using h retry_bound [OF h, of "''e''" "[''e1'', ''e2'', ''e3'']"]
          retry_bound [OF h, of "''e''" "[''e1'', ''e2'']"] t
    by simp
qed

section \<open>Plan status\<close>

lemma plan_rank_le_3 [simp]: "plan_rank s \<le> 3"
  by (cases s) auto

lemma status_le_refl [simp]: "status_le s s"
  by (cases s) auto

lemma status_le_trans: "status_le a b \<Longrightarrow> status_le b c \<Longrightarrow> status_le a c"
  by (cases a; cases b; cases c) auto

lemma status_le_top [simp]: "status_le (Some s) (Some plan_completed)" "status_le (Some s) (Some plan_failed)"
  by (cases s; simp)+

lemma planStatus_checkPlanCompletion: "status_le (planStatus m) (planStatus (checkPlanCompletion m))"
  by (auto simp: planStatus_def checkPlanCompletion_def Let_def split: option.splits)

lemma apply_op_rank: "status_le (planStatus m) (planStatus (apply_op m op))"
proof (cases op)
  case ApprovePlan
  then show ?thesis
    by (auto simp: planStatus_def approvePlan_def split: option.splits)
next
  case StartExecution
  then show ?thesis
    by (auto simp: planStatus_def startExecution_def split: option.splits)
next
  case GetNextTask
  then show ?thesis
    by (auto simp: planStatus_def getNextTask_def split: option.splits)
next
  case (MarkTaskInProgress x4)
  then show ?thesis
    by (auto simp: planStatus_def markTaskInProgress_def split: option.splits)
next
  case (MarkTaskCompleted x5)
  have "status_le (planStatus m) (planStatus (case plan m of
          None \<Rightarrow> m
        | Some p \<Rightarrow>
            m\<lparr>plan := Some (p\<lparr>tasks :=
                update_found (\<lambda>t. task_id t = x5)
                  (\<lambda>t. t\<lparr>status := completed, error := None\<rparr>) (tasks p)\<rparr>)\<rparr>))"
    by (auto simp: planStatus_def split: option.splits)
  then show ?thesis
    unfolding MarkTaskCompleted apply_op.simps markTaskCompleted_def
    using planStatus_checkPlanCompletion status_le_trans by blast
next
  case (MarkTaskFailed x61 x62)
  then show ?thesis
    by (auto simp: planStatus_def markTaskFailed_def Let_def split: option.splits)
next
  case (SetVerifyCommands x7)
  then show ?thesis
    by (auto simp: planStatus_def setVerifyCommands_def split: option.splits)
qed

lemma foldl_apply_op_rank: "status_le (planStatus m) (planStatus (foldl apply_op m ops))"
proof (induction ops arbitrary: m)
  case Nil
  show ?case by simp
next
  case (Cons op ops)
  show ?case
    using status_le_trans [OF apply_op_rank [of m op] Cons.IH [of "apply_op m op"]] by simp
qed

text \<open>
  Claim C3. \<open>approvePlan\<close> returns true exactly when the current plan is a draft, and then
  sets its status to approved and changes nothing else; otherwise it returns false and
  leaves the manager unchanged. \<open>startExecution\<close> returns true exactly when the current plan
  is approved, and then sets its status to in progress; otherwise it returns false and
  leaves the manager unchanged. Along every sequence of calls of \<open>approvePlan\<close>,
  \<open>startExecution\<close>, \<open>getNextTask\<close>, \<open>markTaskInProgress\<close>, \<open>markTaskCompleted\<close>,
  \<open>markTaskFailed\<close> and \<open>setVerifyCommands\<close> the plan status never moves backwards in the
  order draft, approved, in progress, then completed or failed.
\<close>

theorem plan_status_monotonic:
  "(fst (approvePlan m) \<longleftrightarrow> planStatus m = Some draft) \<and>
   (\<forall>p. plan m = Some p \<and> plan_status p = draft \<longrightarrow>
        approvePlan m = (True, m\<lparr>plan := Some (p\<lparr>plan_status := approved\<rparr>)\<rparr>)) \<and>
   (planStatus m \<noteq> Some draft \<longrightarrow> approvePlan m = (False, m)) \<and>
   (fst (startExecution m) \<longleftrightarrow> planStatus m = Some approved) \<and>
   (\<forall>p. plan m = Some p \<and> plan_status p = approved \<longrightarrow>
        startExecution m = (True, m\<lparr>plan := Some (p\<lparr>plan_status := plan_in_progress\<rparr>)\<rparr>)) \<and>
   (planStatus m \<noteq> Some approved \<longrightarrow> startExecution m = (False, m)) \<and>
   status_le (planStatus m) (planStatus (foldl apply_op m ops))"
proof -
  have "status_le (planStatus m) (planStatus (foldl apply_op m ops))"
    by (rule foldl_apply_op_rank)
  moreover have "(fst (approvePlan m) \<longleftrightarrow> planStatus m = Some draft) \<and>
   (\<forall>p. plan m = Some p \<and> plan_status p = draft \<longrightarrow>
        approvePlan m = (True, m\<lparr>plan := Some (p\<lparr>plan_status := approved\<rparr>)\<rparr>)) \<and>
   (planStatus m \<noteq> Some draft \<longrightarrow> approvePlan m = (False, m))"
    by (auto simp: planStatus_def approvePlan_def split: option.splits)
  moreover have "(fst (startExecution m) \<longleftrightarrow> planStatus m = Some approved) \<and>
   (\<forall>p. plan m = Some p \<and> plan_status p = approved \<longrightarrow>
        startExecution m = (True, m\<lparr>plan := Some (p\<lparr>plan_status := plan_in_progress\<rparr>)\<rparr>)) \<and>
   (planStatus m \<noteq> Some approved \<longrightarrow> startExecution m = (False, m))"
    by (auto simp: planStatus_def startExecution_def split: option.splits)
  ultimately show ?thesis by blast
qed

theorem plan_status_monotonic_witness:
  "fst (approvePlan (demo_manager draft [] False)) \<and>
   \<not> fst (startExecution (demo_manager draft [] False)) \<and>
   planStatus (foldl apply_op (demo_manager draft [] False) [ApprovePlan, StartExecution])
     = Some plan_in_progress \<and>
   approvePlan (demo_manager plan_in_progress [] False)
     = (False, demo_manager plan_in_progress [] False)"
proof -
  have d: "planStatus (demo_manager draft [] False) = Some draft"
    and i: "planStatus (demo_manager plan_in_progress [] False) \<noteq> Some draft"
    by (simp_all add: planStatus_def demo_manager_def)
  have s: "planStatus (foldl apply_op (demo_manager draft [] False) [ApprovePlan, StartExecution])
             = Some plan_in_progress"
    by (simp add: planStatus_def demo_manager_def approvePlan_def startExecution_def)
  show ?thesis
    using plan_status_monotonic [of "demo_manager draft [] False" "[]"]
          plan_status_monotonic [of "demo_manager plan_in_progress [] False" "[]"] d i s
    by simp
qed

section \<open>Verifier\<close>

lemma verifyAll_run_in_order:
  "verifyAll exec v commands w = run_in_order exec v (configured commands) w"
  by (auto simp: verifyAll_def configured_def runLint_def runBuild_def runTests_def Let_def
           split: prod.splits)

lemma runCommand_rejected:
  assumes "exec command (verifier_workingDirectory v) (timeout v) w = (Rejected e, w')"
  shows "runCommand exec v command w =
           (\<lparr>vr_success = False, vr_command = command,
             vr_output = trim (if truthy (stdout e)
                               then (if truthy (stderr e)
                                     then the (stdout e) @ ''\<newline>'' @ the (stderr e)
                                     else the (stdout e))
                               else if truthy (stderr e) then the (stderr e)
                               else message e),
             vr_exitCode = (case code e of None \<Rightarrow> 1 | Some c \<Rightarrow> if c = 0 then 1 else c)\<rparr>, w')"
proof -
  have t: "\<And>x. truthy x \<Longrightarrow> the x \<noteq> []"
    by (case_tac x) auto
  show ?thesis
    using assms by (auto simp: runCommand_def Let_def dest: t)
qed

lemma runCommand_resolved:
  assumes "exec command (verifier_workingDirectory v) (timeout v) w = (Resolved out err, w')"
  shows "vr_success (fst (runCommand exec v command w)) \<and> snd (runCommand exec v command w) = w'"
  using assms by (simp add: runCommand_def Let_def)

text \<open>
  Claim C7. \<open>runCommand\<close> always returns a result: when the process runner rejects (a
  non-zero exit or a timeout), the result has \<open>success = false\<close>, and its output is the
  trimmed captured text, standard output then standard error separated by a line break,
  or the error message when neither stream holds text; when the runner resolves, the
  result has \<open>success = true\<close>. \<open>verifyAll\<close> runs the configured commands in the order
  lint, build, test and stops after the first failing one, returning the results
  gathered so far and the overall flag. In particular, when the build command fails (with
  no lint command, or after a lint command that passed) the result is a failure whose
  last entry is the build result, and the world is the one the build left: the test
  command is not run.
\<close>

theorem verifier_failure_and_order:
  "(\<forall>e w'. exec command (verifier_workingDirectory v) (timeout v) w = (Rejected e, w') \<longrightarrow>
       runCommand exec v command w =
         (\<lparr>vr_success = False, vr_command = command,
           vr_output = trim (if truthy (stdout e)
                             then (if truthy (stderr e)
                                   then the (stdout e) @ ''\<newline>'' @ the (stderr e)
                                   else the (stdout e))
                             else if truthy (stderr e) then the (stderr e)
                             else message e),
           vr_exitCode = (case code e of None \<Rightarrow> 1 | Some c \<Rightarrow> if c = 0 then 1 else c)\<rparr>, w')) \<and>
   (\<forall>out err w'. exec command (verifier_workingDirectory v) (timeout v) w = (Resolved out err, w') \<longrightarrow>
       vr_success (fst (runCommand exec v command w)) \<and> snd (runCommand exec v command w) = w') \<and>
   verifyAll exec v commands w = run_in_order exec v (configured commands) w \<and>
   (\<forall>b. \<not> truthy (lint commands) \<and> build commands = Some b \<and> b \<noteq> [] \<and>
        \<not> vr_success (fst (runCommand exec v b w)) \<longrightarrow>
        verifyAll exec v commands w =
          ((False, [fst (runCommand exec v b w)]), snd (runCommand exec v b w))) \<and>
   (\<forall>l b. lint commands = Some l \<and> l \<noteq> [] \<and> build commands = Some b \<and> b \<noteq> [] \<and>
        vr_success (fst (runCommand exec v l w)) \<and>
        \<not> vr_success (fst (runCommand exec v b (snd (runCommand exec v l w)))) \<longrightarrow>
        verifyAll exec v commands w =
          ((False, [fst (runCommand exec v l w),
                    fst (runCommand exec v b (snd (runCommand exec v l w)))]),
           snd (runCommand exec v b (snd (runCommand exec v l w)))))"
proof -
  have a: "\<forall>b. \<not> truthy (lint commands) \<and> build commands = Some b \<and> b \<noteq> [] \<and>
        \<not> vr_success (fst (runCommand exec v b w)) \<longrightarrow>
        verifyAll exec v commands w =
          ((False, [fst (runCommand exec v b w)]), snd (runCommand exec v b w))"
    by (auto simp: verifyAll_def runBuild_def Let_def split: prod.splits)
  have b: "\<forall>l b. lint commands = Some l \<and> l \<noteq> [] \<and> build commands = Some b \<and> b \<noteq> [] \<and>
        vr_success (fst (runCommand exec v l w)) \<and>
        \<not> vr_success (fst (runCommand exec v b (snd (runCommand exec v l w)))) \<longrightarrow>
        verifyAll exec v commands w =
          ((False, [fst (runCommand exec v l w),
                    fst (runCommand exec v b (snd (runCommand exec v l w)))]),
           snd (runCommand exec v b (snd (runCommand exec v l w))))"
    by (auto simp: verifyAll_def runBuild_def runLint_def Let_def split: prod.splits)
  show ?thesis
    using a b runCommand_rejected [of exec command v w] runCommand_resolved [of exec command v w]
          verifyAll_run_in_order [of exec v commands w]
    by blast
qed

theorem verifier_failure_and_order_witness:
  "verifyAll demo_exec \<lparr>verifier_workingDirectory = ''/project'', timeout = 60000\<rparr>
     \<lparr>build = Some ''npm run build'', test = Some ''npm test'', lint = None\<rparr> []
   = ((False, [\<lparr>vr_success = False, vr_command = ''npm run build'',
                 vr_output = ''error TS2304: Cannot find name'', vr_exitCode = 2\<rparr>]),
      [''npm run build''])"
proof -
  let ?v = "\<lparr>verifier_workingDirectory = ''/project'', timeout = 60000\<rparr>"
  let ?c = "\<lparr>build = Some ''npm run build'', test = Some ''npm test'', lint = None\<rparr>"
  have r: "runCommand demo_exec ?v ''npm run build'' [] =
             (\<lparr>vr_success = False, vr_command = ''npm run build'',
               vr_output = ''error TS2304: Cannot find name'', vr_exitCode = 2\<rparr>,
              [''npm run build''])"
    by (simp add: runCommand_def demo_exec_def trim_def is_space_def)
  have "\<forall>b. \<not> truthy (lint ?c) \<and> build ?c = Some b \<and> b \<noteq> [] \<and>
        \<not> vr_success (fst (runCommand demo_exec ?v b [])) \<longrightarrow>
        verifyAll demo_exec ?v ?c [] =
          ((False, [fst (runCommand demo_exec ?v b [])]), snd (runCommand demo_exec ?v b []))"
    using verifier_failure_and_order [of demo_exec "''npm run build''" ?v "[]" ?c] by blast
  then have "verifyAll demo_exec ?v ?c [] =
          ((False, [fst (runCommand demo_exec ?v ''npm run build'' [])]),
           snd (runCommand demo_exec ?v ''npm run build'' []))"
    by (simp add: r)
  then show ?thesis
    by (simp add: r)
qed

section \<open>Loading a plan\<close>



section \<open>Executor\<close>

lemma attemptFix_fields:
  "attemptFix e task err w = (r, e', w') \<Longrightarrow>
     ex_planManager e' = ex_planManager e \<and> ex_config e' = ex_config e \<and>
     shouldStop e' = shouldStop e \<and> isRunning e' = isRunning e \<and> ex_agent e' = ex_agent e \<and>
     ex_verifier e' = ex_verifier e"
  by (auto simp: attemptFix_def Let_def split: prod.splits sum.splits)

lemma executeTask_fields:
  assumes "executeTask env e task w = (r, e', w')"
  shows "ex_planManager e' = ex_planManager e \<and> ex_config e' = ex_config e \<and>
         shouldStop e' = shouldStop e \<and> isRunning e' = isRunning e"
proof (cases "run (ex_agent e) (buildTaskPrompt task) (ex_context e) w")
  case (fields res ctx w1)
  show ?thesis
  proof (cases res)
    case (Inl thrown)
    with fields assms show ?thesis
      by (auto simp: executeTask_def Let_def)
  next
    case (Inr response)
    show ?thesis
    proof (cases "plan (ex_planManager e)")
      case None
      with Inr fields assms show ?thesis
        by (auto simp: executeTask_def Let_def)
    next
      case (Some p)
      let ?e1 = "e\<lparr>ex_context := ctx\<rparr>"
      show ?thesis
      proof (cases "runBuildAfterEachTask (ex_config e) \<and> truthy (build (verifyCommands p))")
        case False
        with Some Inr fields assms show ?thesis
          by (auto simp: executeTask_def Let_def split: prod.splits if_splits)
      next
        case True
        obtain v1 w2 where b1: "runBuild (env_exec env) (ex_verifier e) (the (build (verifyCommands p))) w1 = (v1, w2)"
          by force
        show ?thesis
        proof (cases "vr_success v1")
          case True
          with \<open>runBuildAfterEachTask (ex_config e) \<and> truthy (build (verifyCommands p))\<close>
            b1 Some Inr fields assms show ?thesis
            by (auto simp: executeTask_def Let_def split: prod.splits if_splits)
        next
          case False
          obtain fr e2 w3 where af: "attemptFix ?e1 task (vr_output v1) w2 = (fr, e2, w3)"
            by (metis prod.exhaust)
          note f = attemptFix_fields [OF af]
          from False \<open>runBuildAfterEachTask (ex_config e) \<and> truthy (build (verifyCommands p))\<close>
            b1 af Some Inr fields assms f show ?thesis
            by (auto simp: executeTask_def Let_def split: prod.splits if_splits)
        qed
      qed
    qed
  qed
qed

lemma sum_update_found:
  "find P ts = Some t \<Longrightarrow>
   sum_list (map w (update_found P f ts)) + w t = sum_list (map w ts) + (w (f t) :: nat)"
  by (induction ts) (auto split: if_splits)

lemma ids_update_found:
  "(\<And>x. task_id (f x) = task_id x) \<Longrightarrow> map task_id (update_found P f ts) = map task_id ts"
  by (induction ts) auto

lemma unique_ids_markTaskInProgress [simp]:
  "unique_ids (markTaskInProgress tid m) = unique_ids m"
  by (simp add: unique_ids_def markTaskInProgress_def ids_update_found split: option.splits)

lemma unique_ids_checkPlanCompletion [simp]:
  "unique_ids (checkPlanCompletion m) = unique_ids m"
  by (simp add: unique_ids_def checkPlanCompletion_def Let_def split: option.splits)

lemma remaining_runs_checkPlanCompletion [simp]:
  "remaining_runs (checkPlanCompletion m) = remaining_runs m"
  by (simp add: remaining_runs_def checkPlanCompletion_def Let_def split: option.splits)

lemma unique_ids_markTaskCompleted [simp]:
  "unique_ids (markTaskCompleted tid m) = unique_ids m"
  unfolding markTaskCompleted_def unique_ids_checkPlanCompletion
  by (simp add: unique_ids_def ids_update_found split: option.splits)

lemma unique_ids_markTaskFailed [simp]:
  "unique_ids (markTaskFailed tid err m) = unique_ids m"
  by (simp add: unique_ids_def markTaskFailed_def Let_def ids_update_found split: option.splits)

lemma remaining_runs_markTaskInProgress:
  assumes "findTask m tid = Some t" "status t = pending"
  shows "remaining_runs (markTaskInProgress tid m) + Suc (maxAttempts t - attempts t) = remaining_runs m"
proof -
  from assms(1) obtain p where p: "plan m = Some p" and f: "find (\<lambda>t. task_id t = tid) (tasks p) = Some t"
    by (auto simp: findTask_def split: option.splits)
  show ?thesis
    using sum_update_found [OF f,
        of "\<lambda>t. if status t = pending then Suc (maxAttempts t - attempts t) else 0"
           "\<lambda>t. t\<lparr>status := in_progress, attempts := attempts t + 1\<rparr>"] assms(2) p
    by (simp add: remaining_runs_def markTaskInProgress_def)
qed

lemma remaining_runs_markTaskCompleted:
  assumes "findTask m tid = Some t" "status t \<noteq> pending"
  shows "remaining_runs (markTaskCompleted tid m) = remaining_runs m"
proof -
  from assms(1) obtain p where p: "plan m = Some p" and f: "find (\<lambda>t. task_id t = tid) (tasks p) = Some t"
    by (auto simp: findTask_def split: option.splits)
  show ?thesis
    unfolding markTaskCompleted_def remaining_runs_checkPlanCompletion
    using sum_update_found [OF f,
        of "\<lambda>t. if status t = pending then Suc (maxAttempts t - attempts t) else 0"
           "\<lambda>t. t\<lparr>status := completed, error := None\<rparr>"] assms(2) p
    by (simp add: remaining_runs_def)
qed

lemma remaining_runs_markTaskFailed:
  assumes "findTask m tid = Some t" "status t \<noteq> pending"
  shows "remaining_runs (markTaskFailed tid err m) =
           remaining_runs m + (if attempts t \<ge> maxAttempts t then 0 else Suc (maxAttempts t - attempts t))"
proof -
  from assms(1) obtain p where p: "plan m = Some p" and f: "find (\<lambda>t. task_id t = tid) (tasks p) = Some t"
    by (auto simp: findTask_def split: option.splits)
  show ?thesis
    using sum_update_found [OF f,
        of "\<lambda>t. if status t = pending then Suc (maxAttempts t - attempts t) else 0"
           "\<lambda>t. if attempts t \<ge> maxAttempts t
                                then t\<lparr>error := Some err, status := failed\<rparr>
                                else t\<lparr>error := Some err, status := pending\<rparr>"] assms(2) p f
    by (simp add: remaining_runs_def markTaskFailed_def Let_def)
qed

lemma getNextTask_found:
  assumes "getNextTask m = (Some found, m')" "unique_ids m"
  shows "findTask m' (task_id found) = Some found \<and> status found = pending \<and>
         remaining_runs m' = remaining_runs m \<and> unique_ids m'"
proof -
  from assms(1) obtain p i where p: "plan m = Some p" and i: "getNextTask_loop p (currentTaskIndex p) = Some i"
    and f: "found = tasks p ! i" and m': "m' = m\<lparr>plan := Some (p\<lparr>currentTaskIndex := i\<rparr>)\<rparr>"
    by (auto simp: getNextTask_def split: option.splits)
  note facts = getNextTask_loop_Some [OF i]
  from assms(2) p have d: "distinct (map task_id (tasks p))"
    by (simp add: unique_ids_def)
  have "find (\<lambda>t. task_id t = task_id found) (tasks p) = Some found"
    using find_distinct_ids [OF d, of found] facts f by simp
  then show ?thesis
    using facts f m' p d by (simp add: findTask_def remaining_runs_def unique_ids_def)
qed

lemma getNextTask_none:
  "getNextTask m = (None, m') \<Longrightarrow> m' = m"
  by (auto simp: getNextTask_def split: option.splits)

lemma execute_loop_round:
  assumes "\<not> shouldStop e" "getNextTask (ex_planManager e) = (Some found, m)"
    "executeTask env (e\<lparr>ex_planManager := markTaskInProgress (task_id found) m\<rparr>)
       (task_at_cursor (markTaskInProgress (task_id found) m)) w = (result, e2, w2)"
  shows "execute_loop (Suc n) env e a w =
           (let e3 = e2\<lparr>shouldStop := shouldStop e2 \<or> stopCalled env w2\<rparr>;
                e4 = e3\<lparr>ex_planManager :=
                          markTaskFailed (task_id found) (er_output result) (ex_planManager e3)\<rparr>
            in if er_success result then
                 execute_loop n env
                   (e3\<lparr>ex_planManager := markTaskCompleted (task_id found) (ex_planManager e3)\<rparr>) a w2
               else if \<not> attempts (task_at_cursor (ex_planManager e3))
                          < maxAttempts (task_at_cursor (ex_planManager e3)) then
                 (if stopOnFirstFailure (ex_config e4) then Some (False, e4, w2)
                  else execute_loop n env e4 False w2)
               else execute_loop n env e4 a w2)"
  using assms by (simp add: Let_def)

lemma execute_loop_terminates:
  "unique_ids (ex_planManager e) \<Longrightarrow> remaining_runs (ex_planManager e) < fuel \<Longrightarrow>
   \<exists>r. execute_loop fuel env e a w = Some r"
proof (induction fuel arbitrary: e a w)
  case 0
  then show ?case by simp
next
  case (Suc fuel)
  show ?case
  proof (cases "shouldStop e")
    case True
    then show ?thesis by simp
  next
    case False
    obtain nt m where g: "getNextTask (ex_planManager e) = (nt, m)"
      by force
    show ?thesis
    proof (cases nt)
      case None
      with False g show ?thesis by simp
    next
      case (Some found)
      note g' = g [unfolded Some]
      note gf = getNextTask_found [OF g' Suc.prems(1)]
      let ?tid = "task_id found"
      let ?m1 = "markTaskInProgress ?tid m"
      let ?t1 = "found\<lparr>status := in_progress, attempts := attempts found + 1\<rparr>"
      have f1: "findTask ?m1 ?tid = Some ?t1"
        using findTask_markTaskInProgress gf by blast
      have r1: "remaining_runs ?m1 + Suc (maxAttempts found - attempts found) = remaining_runs (ex_planManager e)"
        using remaining_runs_markTaskInProgress [of m ?tid found] gf by simp
      have u1: "unique_ids ?m1"
        using gf by simp
      obtain result e2 w2 where et:
        "executeTask env (e\<lparr>ex_planManager := ?m1\<rparr>) (task_at_cursor ?m1) w = (result, e2, w2)"
        by (metis prod.exhaust)
      from executeTask_fields [OF et] have pm2: "ex_planManager e2 = ?m1"
        by simp
      let ?e3 = "e2\<lparr>shouldStop := shouldStop e2 \<or> stopCalled env w2\<rparr>"
      let ?ok = "?e3\<lparr>ex_planManager := markTaskCompleted ?tid (ex_planManager ?e3)\<rparr>"
      let ?ko = "?e3\<lparr>ex_planManager := markTaskFailed ?tid (er_output result) (ex_planManager ?e3)\<rparr>"
      have "remaining_runs (ex_planManager ?ok) < fuel"
        using remaining_runs_markTaskCompleted [OF f1] r1 Suc.prems(2) pm2 by simp
      moreover have "unique_ids (ex_planManager ?ok)"
        using u1 pm2 by simp
      ultimately have ok: "\<exists>r. execute_loop fuel env ?ok a' w2 = Some r" for a'
        using Suc.IH by blast
      have "remaining_runs (ex_planManager ?ko) < fuel"
        using remaining_runs_markTaskFailed [OF f1, of "er_output result"] r1 Suc.prems(2) pm2
        by (simp split: if_splits)
      moreover have "unique_ids (ex_planManager ?ko)"
        using u1 pm2 by simp
      ultimately have ko: "\<exists>r. execute_loop fuel env ?ko a' w2 = Some r" for a'
        using Suc.IH by blast
      show ?thesis
        unfolding execute_loop_round [OF False g' et] Let_def
        using ok ko by auto
    qed
  qed
qed

lemma execute_loop_more_fuel:
  "execute_loop fuel env e a w = Some r \<Longrightarrow> execute_loop (Suc fuel) env e a w = Some r"
proof (induction fuel arbitrary: e a w)
  case 0
  then show ?case by simp
next
  case (Suc fuel)
  show ?case
  proof (cases "shouldStop e")
    case True
    with Suc.prems show ?thesis by simp
  next
    case False
    obtain nt m where g: "getNextTask (ex_planManager e) = (nt, m)"
      by force
    show ?thesis
    proof (cases nt)
      case None
      with False g Suc.prems show ?thesis by simp
    next
      case (Some found)
      note g' = g [unfolded Some]
      obtain result e2 w2 where et:
        "executeTask env (e\<lparr>ex_planManager := markTaskInProgress (task_id found) m\<rparr>)
           (task_at_cursor (markTaskInProgress (task_id found) m)) w = (result, e2, w2)"
        by (metis prod.exhaust)
      from Suc.prems show ?thesis
        unfolding execute_loop_round [OF False g' et, of "Suc fuel"]
                  execute_loop_round [OF False g' et, of fuel] Let_def
        using Suc.IH by (auto split: if_splits simp del: execute_loop.simps)
    qed
  qed
qed

lemma parse_done: "parseToolCalls ''Done.'' = \<lparr>result_text = ''Done.'', toolCalls = []\<rparr>"
  by code_simp

lemma run_demo_chat:
  "fst (run \<lparr>chat = demo_chat, tools = []\<rparr> prompt ctx log) = Inr ''Done.''"
  unfolding run_def Let_def
  by (subst run_loop.simps) (simp add: MAX_TOOL_ITERATIONS_def demo_chat_def parse_done Let_def)

lemma executeTask_demo:
  assumes "ex_agent e = \<lparr>chat = demo_chat, tools = []\<rparr>" "plan (ex_planManager e) = Some p"
    "verifyCommands p = \<lparr>build = None, test = None, lint = None\<rparr>"
  shows "er_success (fst (executeTask env e task log))"
proof -
  obtain r ctx w where r: "run \<lparr>chat = demo_chat, tools = []\<rparr> (buildTaskPrompt task)
       (ex_context e) log = (r, ctx, w)"
    by (metis prod.exhaust)
  with run_demo_chat [of "buildTaskPrompt task" "ex_context e" log]
  have "r = Inr ''Done.''" by simp
  with r assms show ?thesis
    by (simp add: executeTask_def Let_def)
qed

lemma execute_result:
  "execute fuel env e w = Some (r, e', w') \<Longrightarrow> isApproved (ex_planManager e) \<Longrightarrow>
   r = Inr (planStatus (ex_planManager e') = Some plan_completed)"
  by (auto simp: execute_def execute_start_def Let_def planStatus_def isApproved_def startExecution_def
           split: sum.splits option.splits if_splits)

lemma execute_start_approved:
  "isApproved (ex_planManager e) \<Longrightarrow>
   \<exists>e0. execute_start e = Inr e0 \<and> planStatus (ex_planManager e0) = Some plan_in_progress \<and>
        \<not> shouldStop e0 \<and> isRunning e0 \<and>
        remaining_runs (ex_planManager e0) = remaining_runs (ex_planManager e) \<and>
        unique_ids (ex_planManager e0) = unique_ids (ex_planManager e)"
  by (auto simp: execute_start_def Let_def planStatus_def isApproved_def startExecution_def
                 remaining_runs_def unique_ids_def
           split: option.splits)

lemma execute_not_approved:
  "\<not> isApproved (ex_planManager e) \<Longrightarrow>
   execute fuel env e w = Some (Inl (Error ''Plan must be approved before execution''), e, w)"
  by (simp add: execute_def execute_start_def)

lemma execute_more_fuel:
  "execute fuel env e w = Some r \<Longrightarrow> execute (Suc fuel) env e w = Some r"
  by (auto simp: execute_def split: sum.splits option.splits simp del: execute_loop.simps
           dest: execute_loop_more_fuel)

lemma execute_terminates:
  assumes "isApproved (ex_planManager e)" "unique_ids (ex_planManager e)"
  shows "\<exists>b e' w'. execute (Suc (remaining_runs (ex_planManager e))) env e w = Some (Inr b, e', w')"
proof -
  from execute_start_approved [OF assms(1)] obtain e0 where
    e0: "execute_start e = Inr e0" "remaining_runs (ex_planManager e0) = remaining_runs (ex_planManager e)"
        "unique_ids (ex_planManager e0)"
    using assms(2) by blast
  from execute_loop_terminates [OF e0(3), of "Suc (remaining_runs (ex_planManager e))" env True w] e0(2)
  obtain r where "execute_loop (Suc (remaining_runs (ex_planManager e))) env e0 True w = Some r"
    by auto
  with e0(1) show ?thesis
    by (cases r) (simp add: execute_def Let_def del: execute_loop.simps)
qed

text \<open>
  Claim C8, as amended. \<open>execute\<close> throws, before it changes anything, exactly when the
  manager holds no plan or a plan whose status is neither approved nor in progress
  (\<open>isApproved\<close> accepts both). Otherwise the plan is in progress when the loop starts
  pulling tasks, and when \<open>execute\<close> returns, it returns true if and only if the final status
  of the plan is completed. With unique task identifiers \<open>execute\<close> does return, after at
  most \<open>remaining_runs\<close> rounds, and more fuel never changes a result.
\<close>

theorem execute_guard_and_result:
  "(isApproved (ex_planManager e) \<longleftrightarrow>
      planStatus (ex_planManager e) = Some approved \<or>
      planStatus (ex_planManager e) = Some plan_in_progress) \<and>
   (\<not> isApproved (ex_planManager e) \<longrightarrow>
      execute fuel env e w = Some (Inl (Error ''Plan must be approved before execution''), e, w)) \<and>
   (isApproved (ex_planManager e) \<longrightarrow>
      (\<exists>e0. execute_start e = Inr e0 \<and> planStatus (ex_planManager e0) = Some plan_in_progress) \<and>
      (\<forall>r e' w'. execute fuel env e w = Some (r, e', w') \<longrightarrow>
           r = Inr (planStatus (ex_planManager e') = Some plan_completed)) \<and>
      (\<forall>r. execute fuel env e w = Some r \<longrightarrow> execute (Suc fuel) env e w = Some r) \<and>
      (unique_ids (ex_planManager e) \<longrightarrow>
         (\<exists>b e' w'. execute (Suc (remaining_runs (ex_planManager e))) env e w = Some (Inr b, e', w'))))"
proof -
  have a: "isApproved (ex_planManager e) \<longleftrightarrow>
      planStatus (ex_planManager e) = Some approved \<or>
      planStatus (ex_planManager e) = Some plan_in_progress"
    by (auto simp: isApproved_def planStatus_def split: option.splits)
  show ?thesis
    using a execute_not_approved [of e fuel env w] execute_start_approved [of e]
          execute_result [of fuel env e w] execute_more_fuel [of fuel env e w]
          execute_terminates [of e env w]
    by blast
qed


text \<open>
  Claim C8 as stated fails: a plan that is in progress, hence not approved, is executed.
  Here its only task runs and succeeds, and \<open>execute\<close> returns true.
\<close>

theorem execute_in_progress_counterexample:
  "planStatus (ex_planManager (demo_executor
       (demo_manager plan_in_progress [demo_task ''task-1'' [] pending 0] False)))
     = Some plan_in_progress \<and>
   map_option fst (execute 2 demo_environment
       (demo_executor (demo_manager plan_in_progress [demo_task ''task-1'' [] pending 0] False)) [])
     = Some (Inr True)"
proof -
  let ?m0 = "demo_manager plan_in_progress [demo_task ''task-1'' [] pending 0] False"
  let ?E = "demo_executor ?m0"
  obtain p0 where p0: "plan ?m0 = Some p0" "tasks p0 = [demo_task ''task-1'' [] pending 0]"
    "currentTaskIndex p0 = 0" "verifyCommands p0 = \<lparr>build = None, test = None, lint = None\<rparr>"
    "plan_status p0 = plan_in_progress"
    by (simp add: demo_manager_def)
  have st: "planStatus (ex_planManager ?E) = Some plan_in_progress"
    by (simp add: planStatus_def demo_executor_def demo_manager_def)
  have "\<exists>E0. execute_start ?E = Inr E0 \<and> ex_planManager E0 = ?m0 \<and>
          ex_agent E0 = \<lparr>chat = demo_chat, tools = []\<rparr> \<and> \<not> shouldStop E0"
    using p0 by (simp add: execute_start_def isApproved_def startExecution_def demo_executor_def Let_def)
  then obtain E0 where start: "execute_start ?E = Inr E0" and E0: "ex_planManager E0 = ?m0"
    "ex_agent E0 = \<lparr>chat = demo_chat, tools = []\<rparr>" and ns: "\<not> shouldStop E0"
    by blast
  have l0: "getNextTask_loop p0 0 = Some 0"
    by (subst getNextTask_loop.simps) (simp add: p0 demo_task_def depsComplete_def)
  let ?m0' = "?m0\<lparr>plan := Some (p0\<lparr>currentTaskIndex := 0\<rparr>)\<rparr>"
  have g: "getNextTask (ex_planManager E0) = (Some (demo_task ''task-1'' [] pending 0), ?m0')"
    using p0 l0 E0 by (simp add: getNextTask_def)
  have tid: "task_id (demo_task ''task-1'' [] pending 0) = ''task-1''"
    by (simp add: demo_task_def)
  let ?m1 = "markTaskInProgress ''task-1'' ?m0'"
  let ?found = "demo_task ''task-1'' [] pending 0"
  obtain result e2 w2 where et0:
    "executeTask demo_environment (E0\<lparr>ex_planManager := markTaskInProgress (task_id ?found) ?m0'\<rparr>)
       (task_at_cursor (markTaskInProgress (task_id ?found) ?m0')) [] = (result, e2, w2)"
    by (metis prod.exhaust)
  then have et:
    "executeTask demo_environment (E0\<lparr>ex_planManager := ?m1\<rparr>) (task_at_cursor ?m1) [] = (result, e2, w2)"
    by (simp add: tid)
  have p1: "plan ?m1 = Some (p0\<lparr>currentTaskIndex := 0,
              tasks := [demo_task ''task-1'' [] in_progress (Suc 0)]\<rparr>)"
    using p0 by (simp add: markTaskInProgress_def demo_task_def)
  have ok: "er_success result"
    using executeTask_demo [of "E0\<lparr>ex_planManager := ?m1\<rparr>" _ demo_environment "task_at_cursor ?m1" "[]"]
          p1 p0 et E0
    by simp
  from executeTask_fields [OF et] ns have f2: "ex_planManager e2 = ?m1" "\<not> shouldStop e2"
    by simp_all
  let ?e3 = "e2\<lparr>shouldStop := shouldStop e2 \<or> stopCalled demo_environment w2\<rparr>"
  let ?E4 = "?e3\<lparr>ex_planManager := markTaskCompleted ''task-1'' (ex_planManager ?e3)\<rparr>"
  have round: "execute_loop (Suc (Suc 0)) demo_environment E0 True [] =
                 execute_loop (Suc 0) demo_environment ?E4 True w2"
    unfolding execute_loop_round [OF ns g et0] Let_def
    using ok by (simp add: tid del: execute_loop.simps)
  have p2: "plan (markTaskCompleted ''task-1'' ?m1) =
              Some (p0\<lparr>currentTaskIndex := 0,
                        tasks := [(demo_task ''task-1'' [] completed (Suc 0))],
                        plan_status := plan_completed\<rparr>)"
    using p1 by (simp add: markTaskCompleted_def checkPlanCompletion_def demo_task_def Let_def)
  have l2: "getNextTask_loop (p0\<lparr>currentTaskIndex := 0,
                        tasks := [(demo_task ''task-1'' [] completed (Suc 0))],
                        plan_status := plan_completed\<rparr>) 0 = None"
    by (subst getNextTask_loop.simps, simp add: demo_task_def, subst getNextTask_loop.simps, simp)
  have g2: "getNextTask (ex_planManager ?E4) = (None, ex_planManager ?E4)"
    using p2 l2 f2 by (simp add: getNextTask_def)
  have s4: "\<not> shouldStop ?E4"
    using f2 by (simp add: demo_environment_def)
  have last: "execute_loop (Suc 0) demo_environment ?E4 True w2 = Some (True, ?E4, w2)"
    using s4 g2 by simp
  have "execute 2 demo_environment ?E [] = Some (Inr True, ?E4\<lparr>isRunning := False\<rparr>, w2)"
    using start round last p2 f2
    by (simp add: execute_def numeral_2_eq_2 Let_def del: execute_loop.simps)
  with st show ?thesis
    by simp
qed


theorem execute_guard_and_result_witness:
  "execute 1 demo_environment (demo_executor (demo_manager draft [] False)) []
     = Some (Inl (Error ''Plan must be approved before execution''),
             demo_executor (demo_manager draft [] False), []) \<and>
   isApproved (ex_planManager (demo_executor (demo_manager approved [] False))) \<and>
   map_option fst (execute 1 demo_environment (demo_executor (demo_manager approved [] False)) [])
     = Some (Inr False)"
proof -
  let ?d = "demo_executor (demo_manager draft [] False)"
  let ?a = "demo_executor (demo_manager approved [] False)"
  have nd: "\<not> isApproved (ex_planManager ?d)"
    by (simp add: isApproved_def demo_executor_def demo_manager_def)
  have ia: "isApproved (ex_planManager ?a)"
    by (simp add: isApproved_def demo_executor_def demo_manager_def)
  have ua: "unique_ids (ex_planManager ?a)" "Suc (remaining_runs (ex_planManager ?a)) = 1"
    by (simp_all add: unique_ids_def remaining_runs_def demo_executor_def demo_manager_def)
  have gn: "\<And>m p. plan m = Some p \<Longrightarrow> tasks p = [] \<Longrightarrow> getNextTask m = (None, m)"
    by (simp add: getNextTask_def, subst getNextTask_loop.simps, simp)
  from execute_guard_and_result [of ?a 1 demo_environment "[]"] ia ua
  obtain b e' w' where r: "execute 1 demo_environment ?a [] = Some (Inr b, e', w')"
    by auto
  from execute_guard_and_result [of ?a 1 demo_environment "[]"] ia r
  have b: "b = (planStatus (ex_planManager e') = Some plan_completed)"
    by blast
  have "\<exists>E0 p. execute_start ?a = Inr E0 \<and> \<not> shouldStop E0 \<and> plan (ex_planManager E0) = Some p \<and>
          tasks p = [] \<and> plan_status p = plan_in_progress"
    by (simp add: execute_start_def isApproved_def startExecution_def demo_executor_def
                  demo_manager_def Let_def)
  then obtain E0 p where E0: "execute_start ?a = Inr E0" "\<not> shouldStop E0"
    "plan (ex_planManager E0) = Some p" "tasks p = []" "plan_status p = plan_in_progress"
    by blast
  have "execute_loop 1 demo_environment E0 True [] = Some (True, E0, [])"
    using E0 gn [OF E0(3) E0(4)] by simp
  with E0 r have "planStatus (ex_planManager e') = Some plan_in_progress"
    by (auto simp: execute_def planStatus_def Let_def simp del: execute_loop.simps)
  with b r have "map_option fst (execute 1 demo_environment ?a []) = Some (Inr False)"
    by simp
  then show ?thesis
    using execute_guard_and_result [of ?d 1 demo_environment "[]"] nd ia by simp
qed

section \<open>Agent loop\<close>

lemma getToolByName_counting:
  "getToolByName (tools (counting cfg)) nm = map_option lift_tool (getToolByName (tools cfg) nm)"
proof (cases nm)
  case (Name n)
  have "find (\<lambda>t. def_name (tool_definition t) = n) (map lift_tool ts)
          = map_option lift_tool (find (\<lambda>t. def_name (tool_definition t) = n) ts)" for ts :: "'a Tool list"
    by (induction ts) (auto simp: lift_tool_def)
  with Name show ?thesis by (simp add: counting_def)
next
  case (Inherited k)
  then show ?thesis by simp
qed

lemma run_tools_counting:
  "run_tools (counting cfg) tc calls acc (w, n) =
     (case run_tools cfg tc calls acc w of (r, w') \<Rightarrow> (r, (w', n)))"
proof (induction calls arbitrary: acc w)
  case Nil
  show ?case by simp
next
  case (Cons c calls)
  show ?case
  proof (cases "getToolByName (tools cfg) (name c)")
    case None
    then show ?thesis
      using Cons.IH by (simp add: getToolByName_counting Let_def)
  next
    case (Some t)
    obtain r w' where e: "tool_execute t (parameters c) tc w = (r, w')"
      by force
    then show ?thesis
      using Some Cons.IH
      by (cases r) (simp_all add: getToolByName_counting lift_tool_def Let_def)
  qed
qed

lemma run_loop_counting:
  "\<exists>k. k \<le> MAX_TOOL_ITERATIONS - iteration \<and>
        run_loop (counting cfg) iteration finalResponse ctx (w, n) =
          (case run_loop cfg iteration finalResponse ctx w of
             (r, ctx', w') \<Rightarrow> (r, ctx', (w', n + k)))"
proof (induction "MAX_TOOL_ITERATIONS - iteration" arbitrary: iteration finalResponse ctx w n)
  case 0
  then have "\<not> iteration < MAX_TOOL_ITERATIONS" by simp
  then have "run_loop (counting cfg) iteration finalResponse ctx (w, n) =
          (case run_loop cfg iteration finalResponse ctx w of
             (r, ctx', w') \<Rightarrow> (r, ctx', (w', n + 0)))"
    by (subst run_loop.simps, subst (2) run_loop.simps) simp
  then show ?case by blast
next
  case (Suc d)
  then have lt: "iteration < MAX_TOOL_ITERATIONS" and d: "d = MAX_TOOL_ITERATIONS - Suc iteration"
    by simp_all
  obtain res w1 where c: "chat cfg (messages ctx) w = (res, w1)"
    by force
  then have cc: "chat (counting cfg) (messages ctx) (w, n) = (res, (w1, Suc n))"
    by (simp add: counting_def count_chat_def)
  show ?case
  proof (cases res)
    case (Inl err)
    have "run_loop (counting cfg) iteration finalResponse ctx (w, n) =
          (case run_loop cfg iteration finalResponse ctx w of
             (r, ctx', w') \<Rightarrow> (r, ctx', (w', n + 1)))"
      using lt c cc Inl by (subst run_loop.simps, subst (2) run_loop.simps) simp
    moreover have "1 \<le> MAX_TOOL_ITERATIONS - iteration"
      using lt by simp
    ultimately show ?thesis by blast
  next
    case (Inr response)
    let ?p = "parseToolCalls (response_content response)"
    show ?thesis
    proof (cases "length (toolCalls ?p) = 0")
      case True
      have "run_loop (counting cfg) iteration finalResponse ctx (w, n) =
          (case run_loop cfg iteration finalResponse ctx w of
             (r, ctx', w') \<Rightarrow> (r, ctx', (w', n + 1)))"
        using lt c cc Inr True
        by (subst run_loop.simps, subst (2) run_loop.simps) (simp add: Let_def)
      moreover have "1 \<le> MAX_TOOL_ITERATIONS - iteration"
        using lt by simp
      ultimately show ?thesis by blast
    next
      case False
      let ?tc = "\<lparr>tc_workingDirectory = context_workingDirectory ctx\<rparr>"
      obtain tr w2 where t: "run_tools cfg ?tc (toolCalls ?p) [] w1 = (tr, w2)"
        by force
      then have tcnt: "run_tools (counting cfg) ?tc (toolCalls ?p) [] (w1, Suc n) = (tr, (w2, Suc n))"
        by (simp add: run_tools_counting)
      show ?thesis
      proof (cases tr)
        case (Inl err)
        have "run_loop (counting cfg) iteration finalResponse ctx (w, n) =
          (case run_loop cfg iteration finalResponse ctx w of
             (r, ctx', w') \<Rightarrow> (r, ctx', (w', n + 1)))"
          using lt c cc Inr False t tcnt Inl
          by (subst run_loop.simps, subst (2) run_loop.simps) (simp add: Let_def)
        moreover have "1 \<le> MAX_TOOL_ITERATIONS - iteration"
          using lt by simp
        ultimately show ?thesis by blast
      next
        case results: (Inr toolResults)
        let ?fr = "if result_text ?p \<noteq> [] then result_text ?p else finalResponse"
        let ?ctx = "addUserMessage (addAssistantMessage ctx (response_content response))
                      (join ''\<newline>\<newline>'' toolResults)"
        from Suc.hyps(1) [OF d, of ?fr ?ctx w2 "Suc n"] obtain k where
          k: "k \<le> MAX_TOOL_ITERATIONS - Suc iteration"
             "run_loop (counting cfg) (Suc iteration) ?fr ?ctx (w2, Suc n) =
                (case run_loop cfg (Suc iteration) ?fr ?ctx w2 of
                   (r, ctx', w') \<Rightarrow> (r, ctx', (w', Suc n + k)))"
          by blast
        have l: "run_loop (counting cfg) iteration finalResponse ctx (w, n) =
                   run_loop (counting cfg) (Suc iteration) ?fr ?ctx (w2, Suc n)"
          using lt cc Inr False tcnt results
          by (subst run_loop.simps) (simp add: Let_def)
        have r: "run_loop cfg iteration finalResponse ctx w =
                   run_loop cfg (Suc iteration) ?fr ?ctx w2"
          using lt c Inr False t results
          by (subst run_loop.simps) (simp add: Let_def)
        have "run_loop (counting cfg) iteration finalResponse ctx (w, n) =
          (case run_loop cfg iteration finalResponse ctx w of
             (r, ctx', w') \<Rightarrow> (r, ctx', (w', n + Suc k)))"
          unfolding l r k(2) by simp
        moreover have "Suc k \<le> MAX_TOOL_ITERATIONS - iteration"
          using k(1) lt by simp
        ultimately show ?thesis by blast
      qed
    qed
  qed
qed

lemma formatToolsForPrompt_counting:
  "formatToolsForPrompt (map lift_tool ts) = formatToolsForPrompt ts"
  by (simp add: formatToolsForPrompt_def lift_tool_def o_def)

lemma buildSystemPrompt_counting:
  "buildSystemPrompt (counting cfg) ctx = buildSystemPrompt cfg ctx"
  by (simp add: buildSystemPrompt_def counting_def formatToolsForPrompt_counting)

lemma run_counting:
  "\<exists>k. k \<le> MAX_TOOL_ITERATIONS \<and>
        run (counting cfg) userMessage ctx (w, n) =
          (case run cfg userMessage ctx w of
             (r, ctx', w') \<Rightarrow> (r, ctx', (w', n + k)))"
  unfolding run_def Let_def buildSystemPrompt_counting
  using run_loop_counting [of 0 cfg] by simp


lemma run_loop_tool_turn:
  assumes "iteration < MAX_TOOL_ITERATIONS"
    "chat cfg (messages ctx) w = (Inr response, w')"
    "toolCalls (parseToolCalls (response_content response)) \<noteq> []"
    "run_tools cfg \<lparr>tc_workingDirectory = context_workingDirectory ctx\<rparr>
       (toolCalls (parseToolCalls (response_content response))) [] w' = (Inr toolResults, w'')"
  shows "run_loop cfg iteration finalResponse ctx w =
           run_loop cfg (Suc iteration)
             (if result_text (parseToolCalls (response_content response)) \<noteq> []
              then result_text (parseToolCalls (response_content response)) else finalResponse)
             (addUserMessage (addAssistantMessage ctx (response_content response))
                (join ''\<newline>\<newline>'' toolResults))
             w''"
  using assms by (subst run_loop.simps) (simp add: Let_def)

lemma run_loop_no_tool_call:
  assumes "iteration < MAX_TOOL_ITERATIONS"
    "chat cfg (messages ctx) w = (Inr response, w')"
    "toolCalls (parseToolCalls (response_content response)) = []"
  shows "run_loop cfg iteration finalResponse ctx w =
           (Inr (if result_text (parseToolCalls (response_content response)) \<noteq> []
                 then result_text (parseToolCalls (response_content response))
                 else if finalResponse \<noteq> [] then finalResponse
                 else response_content response),
            addAssistantMessage ctx (response_content response), w')"
  using assms by (subst run_loop.simps) (simp add: Let_def)

lemma run_loop_bound_reached:
  "run_loop cfg MAX_TOOL_ITERATIONS finalResponse ctx w =
     (Inr (if finalResponse \<noteq> [] then finalResponse
           else ''I was unable to complete the task within the maximum number of steps.''),
      ctx, w)"
  by (subst run_loop.simps) simp


lemma run_loop_tool_throws:
  assumes "iteration < MAX_TOOL_ITERATIONS"
    "chat cfg (messages ctx) w = (Inr response, w')"
    "toolCalls (parseToolCalls (response_content response)) \<noteq> []"
    "run_tools cfg \<lparr>tc_workingDirectory = context_workingDirectory ctx\<rparr>
       (toolCalls (parseToolCalls (response_content response))) [] w' = (Inl err, w'')"
  shows "run_loop cfg iteration finalResponse ctx w = (Inl err, ctx, w'')"
  using assms by (subst run_loop.simps) (simp add: Let_def)



text \<open>
  Claim C9. The bound of the loop is 20. A run makes at most 20 calls of the provider: run
  with the counting configuration, it behaves as without and adds at most 20 to the
  counter. A turn whose completion holds no tool call ends the run: the completion becomes
  an assistant message and the run returns the narrative text of this completion, else the
  last narrative text seen, else the completion itself. A turn with tool calls goes on to
  the next iteration, keeping the narrative text of the completion when there is one. At
  the bound the run returns the last narrative text seen or, when there was none, the
  message that the task could not be completed, without calling the provider again.
\<close>

theorem run_bounded:
  "MAX_TOOL_ITERATIONS = 20 \<and>
   (\<exists>k \<le> MAX_TOOL_ITERATIONS.
       run (counting cfg) userMessage ctx (w, n) =
         (case run cfg userMessage ctx w of (r, ctx', w') \<Rightarrow> (r, ctx', (w', n + k)))) \<and>
   (\<forall>response w'.
       iteration < MAX_TOOL_ITERATIONS \<and> chat cfg (messages ctx) w = (Inr response, w') \<and>
       toolCalls (parseToolCalls (response_content response)) = [] \<longrightarrow>
       run_loop cfg iteration finalResponse ctx w =
         (Inr (if result_text (parseToolCalls (response_content response)) \<noteq> []
               then result_text (parseToolCalls (response_content response))
               else if finalResponse \<noteq> [] then finalResponse
               else response_content response),
          addAssistantMessage ctx (response_content response), w')) \<and>
   (\<forall>response w' toolResults w''.
       iteration < MAX_TOOL_ITERATIONS \<and> chat cfg (messages ctx) w = (Inr response, w') \<and>
       toolCalls (parseToolCalls (response_content response)) \<noteq> [] \<and>
       run_tools cfg \<lparr>tc_workingDirectory = context_workingDirectory ctx\<rparr>
         (toolCalls (parseToolCalls (response_content response))) [] w' = (Inr toolResults, w'') \<longrightarrow>
       run_loop cfg iteration finalResponse ctx w =
         run_loop cfg (Suc iteration)
           (if result_text (parseToolCalls (response_content response)) \<noteq> []
            then result_text (parseToolCalls (response_content response)) else finalResponse)
           (addUserMessage (addAssistantMessage ctx (response_content response))
              (join ''\<newline>\<newline>'' toolResults))
           w'') \<and>
   run_loop cfg MAX_TOOL_ITERATIONS finalResponse ctx w =
     (Inr (if finalResponse \<noteq> [] then finalResponse
           else ''I was unable to complete the task within the maximum number of steps.''),
      ctx, w)"
  using run_counting [of cfg userMessage ctx w n] run_loop_no_tool_call [of iteration cfg ctx w]
        run_loop_tool_turn [of iteration cfg ctx w] run_loop_bound_reached [of cfg finalResponse ctx w]
  by (simp add: MAX_TOOL_ITERATIONS_def)

lemma parse_glob_call:
  \<open>parseToolCalls ''<tool_call>{"name": "glob"}</tool_call>''
     = \<lparr>result_text = [], toolCalls = [\<lparr>name = Name ''glob'', parameters = JObject []\<rparr>]\<rparr>\<close>
  by code_simp

lemma demo_tool_loop:
  "iteration \<le> MAX_TOOL_ITERATIONS \<Longrightarrow>
   fst (run_loop (counting \<lparr>chat = demo_tool_chat, tools = []\<rparr>) iteration [] ctx (w, n))
     = Inr ''I was unable to complete the task within the maximum number of steps.'' \<and>
   snd (snd (snd (run_loop (counting \<lparr>chat = demo_tool_chat, tools = []\<rparr>) iteration [] ctx (w, n))))
     = n + (MAX_TOOL_ITERATIONS - iteration)"
proof (induction "MAX_TOOL_ITERATIONS - iteration" arbitrary: iteration ctx w n)
  case 0
  then have "iteration = MAX_TOOL_ITERATIONS" by simp
  then show ?case by (simp add: run_loop_bound_reached)
next
  case (Suc d)
  let ?C = "counting \<lparr>chat = demo_tool_chat, tools = []\<rparr>"
  let ?r = \<open>\<lparr>response_content = ''<tool_call>{"name": "glob"}</tool_call>'', finishReason = Some ''stop''\<rparr>\<close>
  from Suc have lt: "iteration < MAX_TOOL_ITERATIONS" and d: "d = MAX_TOOL_ITERATIONS - Suc iteration"
    by simp_all
  have c: "chat ?C (messages ctx) (w, n) = (Inr ?r, (w @ [''chat''], Suc n))"
    by (simp add: counting_def count_chat_def demo_tool_chat_def)
  have tc: "toolCalls (parseToolCalls (response_content ?r)) \<noteq> []"
    by (simp add: parse_glob_call)
  obtain results where t: "run_tools ?C \<lparr>tc_workingDirectory = context_workingDirectory ctx\<rparr>
       (toolCalls (parseToolCalls (response_content ?r))) [] (w @ [''chat''], Suc n)
       = (Inr results, (w @ [''chat''], Suc n))"
    by (simp add: parse_glob_call counting_def Let_def)
  have rt: "result_text (parseToolCalls (response_content ?r)) = []"
    by (simp add: parse_glob_call)
  show ?case
    unfolding run_loop_tool_turn [OF lt c tc t] rt
    using Suc.hyps(1) [OF d, of _ "w @ [''chat'']" "Suc n"] lt by simp
qed

theorem run_bounded_witness:
  "fst (run \<lparr>chat = demo_tool_chat, tools = []\<rparr> ''list the files'' demo_context [])
     = Inr ''I was unable to complete the task within the maximum number of steps.'' \<and>
   snd (snd (snd (run (counting \<lparr>chat = demo_tool_chat, tools = []\<rparr>) ''list the files''
                      demo_context ([], 0)))) = 20"
proof -
  let ?cfg = "\<lparr>chat = demo_tool_chat, tools = []\<rparr> :: string list AgentConfig"
  have l: "fst (run (counting ?cfg) ''list the files'' demo_context ([], 0))
             = Inr ''I was unable to complete the task within the maximum number of steps.''"
     "snd (snd (snd (run (counting ?cfg) ''list the files'' demo_context ([], 0)))) = 20"
    unfolding run_def Let_def
    using demo_tool_loop [of 0 _ "[]" 0] by (simp_all add: MAX_TOOL_ITERATIONS_def)
  from run_bounded [of ?cfg "''list the files''" demo_context "[]" 0]
  obtain k where "run (counting ?cfg) ''list the files'' demo_context ([], 0) =
         (case run ?cfg ''list the files'' demo_context [] of (r, ctx', w') \<Rightarrow> (r, ctx', (w', 0 + k)))"
    by blast
  with l(1) have "fst (run ?cfg ''list the files'' demo_context [])
             = Inr ''I was unable to complete the task within the maximum number of steps.''"
    by (simp split: prod.splits)
  with l(2) show ?thesis by simp
qed



section \<open>Tool-call extractor: the scan for a bare JSON object\<close>

lemma brace_depth_Cons:
  "brace_depth (c # p) =
     (if c = CHR ''{'' then 1 else if c = CHR ''}'' then - 1 else 0) + brace_depth p"
  by (simp add: brace_depth_def)

lemma closes_Cons:
  "closes n (c # p) \<longleftrightarrow>
     (if p = [] then c = CHR ''}'' \<and> n - 1 = 0
      else closes (n + (if c = CHR ''{'' then 1 else if c = CHR ''}'' then - 1 else 0)) p)"
  by (auto simp: closes_def brace_depth_Cons brace_depth_def)

lemma closes_Nil [simp]: "\<not> closes n []"
  by (simp add: closes_def)

lemma brace_scan_Some:
  "brace_scan s i n = Some e \<Longrightarrow>
   \<exists>k. e = i + k \<and> k \<le> length s \<and> closes n (take k s) \<and> (\<forall>j < k. \<not> closes n (take j s))"
proof (induction s arbitrary: i n)
  case Nil
  then show ?case by simp
next
  case (Cons c cs)
  let ?d = "if c = CHR ''{'' then 1 else if c = CHR ''}'' then - 1 else (0::int)"
  show ?case
  proof (cases "c = CHR ''}'' \<and> n - 1 = 0")
    case True
    with Cons.prems have "e = i + 1" by simp
    moreover have "closes n (take 1 (c # cs))"
      using True by (simp add: closes_Cons)
    moreover have "\<forall>j < 1. \<not> closes n (take j (c # cs))"
      by simp
    ultimately show ?thesis
      by (metis One_nat_def Suc_leI length_Cons zero_less_Suc)
  next
    case False
    then have "brace_scan cs (Suc i) (n + ?d) = Some e"
      using Cons.prems by (auto split: if_splits)
    from Cons.IH [OF this] obtain k where
      k: "e = Suc i + k" "k \<le> length cs" "closes (n + ?d) (take k cs)"
         "\<forall>j < k. \<not> closes (n + ?d) (take j cs)"
      by blast
    from k(3) have kne: "take k cs \<noteq> []"
      by (auto simp: closes_def)
    have "closes n (take (Suc k) (c # cs))"
      using k(3) kne by (simp add: closes_Cons)
    moreover have "\<not> closes n (take j (c # cs))" if "j < Suc k" for j
    proof (cases j)
      case 0
      then show ?thesis by simp
    next
      case (Suc j')
      with that have "j' < k" by simp
      with k(4) have nc: "\<not> closes (n + ?d) (take j' cs)" by blast
      show ?thesis
        using False nc unfolding Suc by (auto simp: closes_Cons)
    qed
    ultimately show ?thesis
      using k(1,2) by (intro exI [of _ "Suc k"]) simp
  qed
qed

lemma brace_scan_None:
  "brace_scan s i n = None \<Longrightarrow> \<not> closes n (take k s)"
proof (induction s arbitrary: i n k)
  case Nil
  then show ?case by simp
next
  case (Cons c cs)
  let ?d = "if c = CHR ''{'' then 1 else if c = CHR ''}'' then - 1 else (0::int)"
  from Cons.prems have f: "\<not> (c = CHR ''}'' \<and> n - 1 = 0)" and r: "brace_scan cs (Suc i) (n + ?d) = None"
    by (auto split: if_splits)
  show ?case
  proof (cases k)
    case 0
    then show ?thesis by simp
  next
    case (Suc k')
    show ?thesis
      using f Cons.IH [OF r, of k'] unfolding Suc by (auto simp: closes_Cons)
  qed
qed

lemma brace_scan_positive:
  "brace_scan s i n = Some (i + k) \<Longrightarrow> 0 < n \<Longrightarrow> j < k \<Longrightarrow> 0 < n + brace_depth (take j s)"
proof (induction s arbitrary: i n k j)
  case Nil
  then show ?case by simp
next
  case (Cons c cs)
  let ?d = "if c = CHR ''{'' then 1 else if c = CHR ''}'' then - 1 else (0::int)"
  show ?case
  proof (cases j)
    case 0
    with Cons.prems show ?thesis by (simp add: brace_depth_def)
  next
    case (Suc j')
    show ?thesis
    proof (cases "c = CHR ''}'' \<and> n - 1 = 0")
      case True
      with Cons.prems Suc show ?thesis by simp
    next
      case False
      then have r: "brace_scan cs (Suc i) (n + ?d) = Some (i + k)"
        using Cons.prems by (auto split: if_splits)
      from brace_scan_Some [OF r] have "0 < k"
        by auto
      then obtain k' where k': "k = Suc k'"
        by (cases k) auto
      have pos: "0 < n + ?d"
        using False Cons.prems(2) by auto
      from r k' have "brace_scan cs (Suc i) (n + ?d) = Some (Suc i + k')" by simp
      from Cons.IH [OF this pos, of j'] Cons.prems(3) Suc k'
      have "0 < n + ?d + brace_depth (take j' cs)" by simp
      then show ?thesis
        unfolding Suc by (simp add: brace_depth_Cons)
    qed
  qed
qed


lemma indexOf_Some:
  "indexOf p s = Some i \<Longrightarrow>
     i + length p \<le> length s \<and> take (length p) (drop i s) = p \<and>
     (\<forall>j < i. \<not> starts_with p (drop j s))"
proof (induction s arbitrary: i)
  case Nil
  then show ?case by (simp split: if_splits)
next
  case (Cons c cs)
  show ?case
  proof (cases "starts_with p (c # cs)")
    case True
    with Cons.prems have "i = 0" by simp
    moreover have "length p \<le> length (c # cs)"
    proof -
      from True have "length (take (length p) (c # cs)) = length p"
        by (simp only: starts_with_def)
      then show ?thesis by simp
    qed
    ultimately show ?thesis
      using True by (simp add: starts_with_def)
  next
    case False
    with Cons.prems obtain i' where i': "indexOf p cs = Some i'" "i = Suc i'"
      by auto
    from Cons.IH [OF i'(1)] have ih: "i' + length p \<le> length cs"
      "take (length p) (drop i' cs) = p" "\<forall>j < i'. \<not> starts_with p (drop j cs)"
      by simp_all
    have "\<not> starts_with p (drop j (c # cs))" if "j < i" for j
      using that False ih(3) i'(2) by (cases j) auto
    then show ?thesis
      using ih i'(2) by simp
  qed
qed

lemma indexOf_None:
  "indexOf p s = None \<Longrightarrow> \<not> starts_with p (drop j s)"
proof (induction s arbitrary: j)
  case Nil
  then show ?case by (simp add: starts_with_def split: if_splits)
next
  case (Cons c cs)
  then have a: "\<not> starts_with p (c # cs)" and b: "indexOf p cs = None"
    by (auto split: if_splits)
  show ?case
    using a Cons.IH [OF b] by (cases j) auto
qed

lemma remove_first_cases:
  "(\<forall>i. indexOf p s = Some i \<longrightarrow>
        s = take i s @ p @ drop (i + length p) s \<and>
        remove_first p s = take i s @ drop (i + length p) s) \<and>
   (indexOf p s = None \<longrightarrow> remove_first p s = s)"
proof -
  have "s = take i s @ p @ drop (i + length p) s" if "indexOf p s = Some i" for i
  proof -
    from indexOf_Some [OF that] have "take (length p) (drop i s) = p" by simp
    then have "drop i s = p @ drop (length p) (drop i s)"
      by (metis append_take_drop_id)
    then have "s = take i s @ p @ drop (length p) (drop i s)"
      by (metis append_take_drop_id)
    then show ?thesis
      by (simp add: add.commute)
  qed
  then show ?thesis
    by (auto simp: remove_first_def)
qed

lemma standalone_match:
  assumes "indexOf (''{'' @ rest) response = Some jsonStart"
    "brace_scan (drop jsonStart response) jsonStart 0 = Some jsonEnd"
  shows "jsonStart < jsonEnd \<and> jsonEnd \<le> length response \<and>
         hd (substring response jsonStart jsonEnd) = CHR ''{'' \<and>
         last (substring response jsonStart jsonEnd) = CHR ''}'' \<and>
         brace_depth (substring response jsonStart jsonEnd) = 0 \<and>
         (\<forall>j. 0 < j \<and> j < length (substring response jsonStart jsonEnd) \<longrightarrow>
              0 < brace_depth (take j (substring response jsonStart jsonEnd)))"
proof -
  let ?s = "drop jsonStart response"
  from indexOf_Some [OF assms(1)] have st: "take (Suc (length rest)) ?s = ''{'' @ rest"
    and len: "jsonStart + Suc (length rest) \<le> length response"
    by simp_all
  then obtain cs where cs: "?s = CHR ''{'' # cs"
    by (cases ?s) auto
  from brace_scan_Some [OF assms(2)] obtain k where
    k: "jsonEnd = jsonStart + k" "k \<le> length ?s" "closes 0 (take k ?s)"
    by blast
  from k(3) have kpos: "0 < k"
    by (cases k) auto
  have sub: "substring response jsonStart jsonEnd = take k ?s"
    using k(1) by (simp add: substring_def)
  have lk: "length (take k ?s) = k"
    using k(2) by simp
  from assms(2) k(1) cs have r: "brace_scan cs (Suc jsonStart) 1 = Some (jsonStart + k)"
    by simp
  obtain k' where k': "k = Suc k'"
    using kpos by (cases k) auto
  have pos: "0 < brace_depth (take j ?s)" if "0 < j" "j < k" for j
  proof -
    from that(1) obtain j' where j': "j = Suc j'"
      by (cases j) auto
    from r k' have "brace_scan cs (Suc jsonStart) 1 = Some (Suc jsonStart + k')" by simp
    from brace_scan_positive [OF this, of j'] that(2) j' k'
    have "0 < 1 + brace_depth (take j' cs)" by simp
    then show ?thesis
      unfolding j' cs by (simp add: brace_depth_Cons)
  qed
  have "take j (take k ?s) = take j ?s" if "j < k" for j
    using that by (simp add: min_def)
  then have pos': "\<forall>j. 0 < j \<and> j < length (take k ?s) \<longrightarrow> 0 < brace_depth (take j (take k ?s))"
    using pos lk by simp
  have hd: "hd (take k ?s) = CHR ''{''"
    using cs k' by simp
  show ?thesis
    unfolding sub
    using k kpos pos' hd by (auto simp: closes_def)
qed


lemma parseToolCalls_phases:
  "parseToolCalls response =
     (case (if snd (tagged_and_fenced response) = []
            then foldl (standalone_step response) (tagged_and_fenced response) toolNames
            else tagged_and_fenced response) of
        (text, calls) \<Rightarrow> \<lparr>result_text = text, toolCalls = calls\<rparr>)"
  by (simp add: parseToolCalls_def tagged_and_fenced_def Let_def split: prod.splits)

text \<open>
  Claim C4. When the tagged-block and fenced-block patterns found a tool call, the result
  of \<open>parseToolCalls\<close> is their text and their calls: the scan for a bare JSON object does
  not run. When they found none, the scan runs for every known tool name. For one name,
  nothing changes when the start pattern does not occur or no closing brace brings the
  running count of braces back to zero. Otherwise the object found starts with the brace
  of the start pattern and ends with the first closing brace at which the count is zero:
  it is balanced and every proper prefix of it has an open brace left, so nested braces
  are matched. When this text parses as a tool call, the call is added and the text is
  removed from the narrative text, which is trimmed: the first occurrence of it is cut
  out, and a narrative that does not contain it stays as it is.
\<close>

theorem standalone_scan:
  \<open>(snd (tagged_and_fenced response) \<noteq> [] \<longrightarrow>
      parseToolCalls response =
        \<lparr>result_text = fst (tagged_and_fenced response),
         toolCalls = snd (tagged_and_fenced response)\<rparr>) \<and>
   (snd (tagged_and_fenced response) = [] \<longrightarrow>
      parseToolCalls response =
        \<lparr>result_text = fst (foldl (standalone_step response) (tagged_and_fenced response) toolNames),
         toolCalls = snd (foldl (standalone_step response) (tagged_and_fenced response) toolNames)\<rparr>) \<and>
   (indexOf (''{"name": "'' @ toolName @ ''"'') response = None \<longrightarrow>
      standalone_step response (text, calls) toolName = (text, calls)) \<and>
   (\<forall>jsonStart.
      indexOf (''{"name": "'' @ toolName @ ''"'') response = Some jsonStart \<and>
      brace_scan (drop jsonStart response) jsonStart 0 = None \<longrightarrow>
      standalone_step response (text, calls) toolName = (text, calls) \<and>
      (\<forall>k. \<not> closes 0 (take k (drop jsonStart response)))) \<and>
   (\<forall>jsonStart jsonEnd.
      indexOf (''{"name": "'' @ toolName @ ''"'') response = Some jsonStart \<and>
      brace_scan (drop jsonStart response) jsonStart 0 = Some jsonEnd \<longrightarrow>
      jsonStart < jsonEnd \<and> jsonEnd \<le> length response \<and>
      hd (substring response jsonStart jsonEnd) = CHR ''{'' \<and>
      last (substring response jsonStart jsonEnd) = CHR ''}'' \<and>
      brace_depth (substring response jsonStart jsonEnd) = 0 \<and>
      (\<forall>j. 0 < j \<and> j < length (substring response jsonStart jsonEnd) \<longrightarrow>
           0 < brace_depth (take j (substring response jsonStart jsonEnd))) \<and>
      standalone_step response (text, calls) toolName =
        (case tryParseToolCall (substring response jsonStart jsonEnd) of
           None \<Rightarrow> (text, calls)
         | Some parsed \<Rightarrow>
             (trim (remove_first (substring response jsonStart jsonEnd) text), calls @ [parsed]))) \<and>
   (\<forall>i. indexOf jsonStr text = Some i \<longrightarrow>
        text = take i text @ jsonStr @ drop (i + length jsonStr) text \<and>
        remove_first jsonStr text = take i text @ drop (i + length jsonStr) text) \<and>
   (indexOf jsonStr text = None \<longrightarrow> remove_first jsonStr text = text)\<close>
proof -
  let ?sp = \<open>''{"name": "'' @ toolName @ ''"''\<close>
  have sp: \<open>?sp = ''{'' @ (''"name": "'' @ toolName @ ''"'')\<close>
    by simp
  have a: "snd (tagged_and_fenced response) \<noteq> [] \<longrightarrow>
      parseToolCalls response =
        \<lparr>result_text = fst (tagged_and_fenced response),
         toolCalls = snd (tagged_and_fenced response)\<rparr>"
    by (simp add: parseToolCalls_phases split: prod.splits)
  have b: "snd (tagged_and_fenced response) = [] \<longrightarrow>
      parseToolCalls response =
        \<lparr>result_text = fst (foldl (standalone_step response) (tagged_and_fenced response) toolNames),
         toolCalls = snd (foldl (standalone_step response) (tagged_and_fenced response) toolNames)\<rparr>"
    by (simp add: parseToolCalls_phases split: prod.splits)
  have c: "indexOf ?sp response = None \<longrightarrow>
      standalone_step response (text, calls) toolName = (text, calls)"
    by (simp add: standalone_step_def)
  have d: "\<forall>jsonStart.
      indexOf ?sp response = Some jsonStart \<and>
      brace_scan (drop jsonStart response) jsonStart 0 = None \<longrightarrow>
      standalone_step response (text, calls) toolName = (text, calls) \<and>
      (\<forall>k. \<not> closes 0 (take k (drop jsonStart response)))"
    using brace_scan_None by (auto simp: standalone_step_def)
  have e: "\<forall>jsonStart jsonEnd.
      indexOf ?sp response = Some jsonStart \<and>
      brace_scan (drop jsonStart response) jsonStart 0 = Some jsonEnd \<longrightarrow>
      jsonStart < jsonEnd \<and> jsonEnd \<le> length response \<and>
      hd (substring response jsonStart jsonEnd) = CHR ''{'' \<and>
      last (substring response jsonStart jsonEnd) = CHR ''}'' \<and>
      brace_depth (substring response jsonStart jsonEnd) = 0 \<and>
      (\<forall>j. 0 < j \<and> j < length (substring response jsonStart jsonEnd) \<longrightarrow>
           0 < brace_depth (take j (substring response jsonStart jsonEnd))) \<and>
      standalone_step response (text, calls) toolName =
        (case tryParseToolCall (substring response jsonStart jsonEnd) of
           None \<Rightarrow> (text, calls)
         | Some parsed \<Rightarrow>
             (trim (remove_first (substring response jsonStart jsonEnd) text), calls @ [parsed]))"
  proof (intro allI impI, elim conjE)
    fix jsonStart jsonEnd
    assume i: "indexOf ?sp response = Some jsonStart"
      and s: "brace_scan (drop jsonStart response) jsonStart 0 = Some jsonEnd"
    from i have i': \<open>indexOf (''{'' @ (''"name": "'' @ toolName @ ''"'')) response = Some jsonStart\<close>
      by simp
    note m = standalone_match [OF i' s]
    have "standalone_step response (text, calls) toolName =
        (case tryParseToolCall (substring response jsonStart jsonEnd) of
           None \<Rightarrow> (text, calls)
         | Some parsed \<Rightarrow>
             (trim (remove_first (substring response jsonStart jsonEnd) text), calls @ [parsed]))"
      using i s m by (simp add: standalone_step_def Let_def)
    with m show "jsonStart < jsonEnd \<and> jsonEnd \<le> length response \<and>
      hd (substring response jsonStart jsonEnd) = CHR ''{'' \<and>
      last (substring response jsonStart jsonEnd) = CHR ''}'' \<and>
      brace_depth (substring response jsonStart jsonEnd) = 0 \<and>
      (\<forall>j. 0 < j \<and> j < length (substring response jsonStart jsonEnd) \<longrightarrow>
           0 < brace_depth (take j (substring response jsonStart jsonEnd))) \<and>
      standalone_step response (text, calls) toolName =
        (case tryParseToolCall (substring response jsonStart jsonEnd) of
           None \<Rightarrow> (text, calls)
         | Some parsed \<Rightarrow>
             (trim (remove_first (substring response jsonStart jsonEnd) text), calls @ [parsed]))"
      by blast
  qed
  from a b c d e remove_first_cases [of jsonStr "text"] show ?thesis
    by blast
qed



theorem standalone_scan_witness:
  \<open>parseToolCalls ''Run: {"name": "bash", "parameters": {"command": "echo {a}"}} now''
     = \<lparr>result_text = ''Run:  now'',
        toolCalls = [\<lparr>name = Name ''bash'',
                      parameters = JObject [(''command'', JString ''echo {a}'')]\<rparr>]\<rparr> \<and>
   parseToolCalls ''<tool_call>{"name": "glob"}</tool_call> {"name": "bash"}''
     = \<lparr>result_text = ''{"name": "bash"}'',
        toolCalls = [\<lparr>name = Name ''glob'', parameters = JObject []\<rparr>]\<rparr>\<close>
proof -
  let ?r1 = \<open>''Run: {"name": "bash", "parameters": {"command": "echo {a}"}} now''\<close>
  let ?r2 = \<open>''<tool_call>{"name": "glob"}</tool_call> {"name": "bash"}''\<close>
  have t1: "tagged_and_fenced ?r1 = (?r1, [])"
    unfolding tagged_and_fenced_def by code_simp
  have s1: \<open>foldl (standalone_step ?r1) (?r1, []) toolNames
              = (''Run:  now'', [\<lparr>name = Name ''bash'',
                      parameters = JObject [(''command'', JString ''echo {a}'')]\<rparr>])\<close>
    by code_simp
  have t2: \<open>tagged_and_fenced ?r2 = (''{"name": "bash"}'', [\<lparr>name = Name ''glob'', parameters = JObject []\<rparr>])\<close>
    unfolding tagged_and_fenced_def by code_simp
  note b1 = standalone_scan [of ?r1, THEN conjunct2, THEN conjunct1]
  note a2 = standalone_scan [of ?r2, THEN conjunct1]
  have p1: \<open>parseToolCalls ?r1
     = \<lparr>result_text = ''Run:  now'',
        toolCalls = [\<lparr>name = Name ''bash'',
                      parameters = JObject [(''command'', JString ''echo {a}'')]\<rparr>]\<rparr>\<close>
    using b1 unfolding t1 snd_conv fst_conv s1 by (simp only: simp_thms)
  have p2: \<open>parseToolCalls ?r2
     = \<lparr>result_text = ''{"name": "bash"}'',
        toolCalls = [\<lparr>name = Name ''glob'', parameters = JObject []\<rparr>]\<rparr>\<close>
    using a2 unfolding t2 snd_conv fst_conv by (simp only: list.distinct simp_thms)
  from p1 p2 show ?thesis
    by (rule conjI)
qed

end
